theory Spec2Isabelle
  imports Complex_Main "HOL-Library.Word" "HOL-Library.Multiset"
begin

section \<open>Status values\<close>

text \<open>
  \<^verbatim>\<open>Status\<close> of dingosdk/status.h as the tasks use it: \<^verbatim>\<open>Status::OK()\<close>,
  \<^verbatim>\<open>Status::InvalidArgument(msg)\<close>, and any other failure, of which the tasks read only
  \<^verbatim>\<open>ok()\<close> and \<^verbatim>\<open>Errno()\<close>. The only error number the sources name is
  \<^verbatim>\<open>pb::error::Errno::EDISKANN_IS_NO_DATA\<close>; every other number is \<open>EOther n\<close>.
\<close>

datatype Errno = EDISKANN_IS_NO_DATA | EOther nat

datatype Status = OK | InvalidArgument string | Failed Errno string

fun ok :: "Status \<Rightarrow> bool" where
  "ok OK = True"
| "ok _ = False"

fun IsInvalidArgument :: "Status \<Rightarrow> bool" where
  "IsInvalidArgument (InvalidArgument m) = True"
| "IsInvalidArgument _ = False"

fun StatusErrno :: "Status \<Rightarrow> Errno option" where
  "StatusErrno (Failed e m) = Some e"
| "StatusErrno _ = None"

section \<open>Client-side data (dingosdk/vector.h, dingosdk/types.h)\<close>

text \<open>
  The declaring headers are not among the sources; the types are read off the uses in
  sdk/vector/vector_common.h and the task files. Integers that are only stored and copied
  are \<open>int\<close> (64-bit ids) or words; \<^verbatim>\<open>float\<close> and \<^verbatim>\<open>double\<close> values are only copied and
  compared, never computed with, and are modelled by the real number they denote (no NaN).

  An enum is the datatype of the enumerators the sources name. \<open>ValueType\<close> and the scalar
  \<open>Type\<close> each carry one more constructor that stands for every value outside the cases of
  the switch statements of vector_common.h, whose \<^verbatim>\<open>default:\<close> branch is \<^verbatim>\<open>CHECK(false)\<close>.
\<close>

datatype ValueType = kFloat | kUint8 | kInt8 | kValueTypeOther

datatype Type = kBOOL | kINT64 | kDOUBLE | kSTRING | kTypeOther

datatype MetricType = kNoneMetricType | kL2 | kInnerProduct | kCosine | kHamming


datatype FilterSource = kNoneFilterSource | kScalarFilter | kTableFilter | kVectorIdFilter

datatype FilterType = kNoneFilterType | kQueryPre | kQueryPost

datatype SearchExtraParamType = kParallelOnQueries | kNprobe | kRecallNum | kEfSearch

record ScalarField =
  bool_data :: bool
  long_data :: int
  double_data :: real
  string_data :: string

record ScalarValue =
  sv_type :: Type
  sv_fields :: "ScalarField list"

record Vector =
  dimension :: "32 word"
  value_type :: ValueType
  float_values :: "real list"
  binary_values :: "8 word list"

text \<open>
  \<^verbatim>\<open>scalar_data\<close> is a \<^verbatim>\<open>std::map<std::string, ScalarValue>\<close>: an association list, looked
  up with \<open>map_of\<close>, iterated in list order.
\<close>

record VectorWithId =
  id :: int
  vector :: Vector
  scalar_data :: "(string \<times> ScalarValue) list"

record VectorWithDistance =
  vector_data :: VectorWithId
  distance :: real
  metric_type :: MetricType

text \<open>
  Modelled from the spec: \<^verbatim>\<open>SearchParam\<close> is declared in dingosdk/vector.h, which is not
  among the sources; the field list and the widths (\<^verbatim>\<open>topk: u32\<close>, \<^verbatim>\<open>beamwidth: u32\<close>,
  \<^verbatim>\<open>extra_params: mapping<ExtraKey, i32>\<close>) are those of the data model of the
  specification.
\<close>

record SearchParam =
  topk :: "32 word"
  with_vector_data :: bool
  with_scalar_data :: bool
  selected_keys :: "string list"
  with_table_data :: bool
  enable_range_search :: bool
  filter_source :: FilterSource
  filter_type :: FilterType
  vector_ids :: "int list"
  is_negation :: bool
  is_sorted :: bool
  use_brute_force :: bool
  beamwidth :: "32 word"
  langchain_expr_json :: string
  extra_params :: "SearchExtraParamType \<rightharpoonup> 32 word"

section \<open>Wire messages (proto/common.proto, proto/index.proto)\<close>

text \<open>
  The generated protobuf classes are not among the sources. A message is a record of the
  fields the sources read or write, each prefixed \<open>pb_\<close>. A field that the client sets
  only on some paths, and a sub-message, is an \<open>option\<close>: \<open>None\<close> is a field never set (or
  cleared), as in a default-constructed message. Protobuf enums are open: the wire can
  carry a number outside the names, which the \<open>Other\<close> constructors stand for.
\<close>

datatype ValueTypePB = FLOAT | UINT8 | INT8_T | ValueTypePB_Other

datatype MetricTypePB =
  METRIC_TYPE_NONE | METRIC_TYPE_L2 | METRIC_TYPE_INNER_PRODUCT | METRIC_TYPE_COSINE
  | METRIC_TYPE_HAMMING | MetricTypePB_Other

datatype VectorFilter = SCALAR_FILTER | TABLE_FILTER | VECTOR_ID_FILTER

datatype VectorFilterType = QUERY_PRE | QUERY_POST

record SearchFlatParam =
  pb_flat_parallel_on_queries :: "32 word option"

record SearchIvfFlatParam =
  pb_ivf_flat_nprobe :: "32 word option"
  pb_ivf_flat_parallel_on_queries :: "32 word option"

record SearchIvfPqParam =
  pb_ivf_pq_nprobe :: "32 word option"
  pb_ivf_pq_parallel_on_queries :: "32 word option"
  pb_ivf_pq_recall_num :: "32 word option"

record SearchHNSWParam =
  pb_efsearch :: "32 word option"

record SearchDiskAnnParam =
  pb_beamwidth :: "32 word option"

record SearchBinaryFlatParam =
  pb_binary_flat_parallel_on_queries :: "32 word option"

record SearchBinaryIvfFlatParam =
  pb_binary_ivf_flat_nprobe :: "32 word option"
  pb_binary_ivf_flat_parallel_on_queries :: "32 word option"

record VectorSearchParameter =
  pb_top_n :: "32 word"
  pb_without_vector_data :: bool
  pb_without_scalar_data :: bool
  pb_selected_keys :: "string list"
  pb_without_table_data :: bool
  pb_enable_range_search :: bool
  pb_flat :: "SearchFlatParam option"
  pb_ivf_flat :: "SearchIvfFlatParam option"
  pb_ivf_pq :: "SearchIvfPqParam option"
  pb_hnsw :: "SearchHNSWParam option"
  pb_diskann :: "SearchDiskAnnParam option"
  pb_binary_flat :: "SearchBinaryFlatParam option"
  pb_binary_ivf_flat :: "SearchBinaryIvfFlatParam option"
  pb_vector_filter :: "VectorFilter option"
  pb_vector_filter_type :: "VectorFilterType option"
  pb_vector_ids :: "int list"
  pb_is_negation :: bool
  pb_is_sorted :: bool
  pb_use_brute_force :: bool

text \<open>A default-constructed \<^verbatim>\<open>pb::common::VectorSearchParameter\<close>: nothing set.\<close>

definition VectorSearchParameter_default :: VectorSearchParameter where
  "VectorSearchParameter_default =
     \<lparr> pb_top_n = 0, pb_without_vector_data = False, pb_without_scalar_data = False,
       pb_selected_keys = [], pb_without_table_data = False, pb_enable_range_search = False,
       pb_flat = None, pb_ivf_flat = None, pb_ivf_pq = None, pb_hnsw = None,
       pb_diskann = None, pb_binary_flat = None, pb_binary_ivf_flat = None,
       pb_vector_filter = None, pb_vector_filter_type = None, pb_vector_ids = [],
       pb_is_negation = False, pb_is_sorted = False, pb_use_brute_force = False \<rparr>"

section \<open>Search parameters on the wire (vector_common.h)\<close>





















section \<open>Vectors on the wire (vector_common.h)\<close>

record ScalarFieldPB =
  pb_bool_data :: bool
  pb_long_data :: int
  pb_double_data :: real
  pb_string_data :: string

text \<open>\<open>pb_field_type\<close> is the number of the \<^verbatim>\<open>pb::common::ScalarFieldType\<close> enumerator.\<close>

record ScalarValuePB =
  pb_field_type :: nat
  pb_fields :: "ScalarFieldPB list"

text \<open>\<^verbatim>\<open>binary_values\<close> is a repeated \<^verbatim>\<open>bytes\<close> field: each entry is a byte string.\<close>

record VectorPB =
  pb_dimension :: "32 word"
  pb_value_type :: ValueTypePB
  pb_float_values :: "real list"
  pb_binary_values :: "8 word list list"

record VectorWithIdPB =
  pb_id :: int
  pb_vector :: VectorPB
  pb_scalar_data :: "(string \<times> ScalarValuePB) list"

record VectorWithDistancePB =
  pb_vector_with_id :: VectorWithIdPB
  pb_distance :: real
  pb_metric_type :: MetricTypePB

definition ScalarFieldPB_default :: ScalarFieldPB where
  "ScalarFieldPB_default =
     \<lparr> pb_bool_data = False, pb_long_data = 0, pb_double_data = 0, pb_string_data = [] \<rparr>"

text \<open>
  A fresh \<^verbatim>\<open>pb::common::VectorWithId\<close>, as \<^verbatim>\<open>add_vectors()\<close> and \<^verbatim>\<open>add_vector_with_ids()\<close>
  return it. The value type of a fresh message is never read: \<^verbatim>\<open>FillVectorWithIdPB\<close>
  overwrites it.
\<close>

definition VectorWithIdPB_default :: VectorWithIdPB where
  "VectorWithIdPB_default =
     \<lparr> pb_id = 0,
       pb_vector = \<lparr> pb_dimension = 0, pb_value_type = FLOAT, pb_float_values = [],
                     pb_binary_values = [] \<rparr>,
       pb_scalar_data = [] \<rparr>"

text \<open>
  What vector_common.h takes from files that are not among the sources: the two scalar
  type converters of sdk/types_util.h, and the content of a \<^verbatim>\<open>ScalarField\<close> that was
  declared without an initialiser (\<^verbatim>\<open>ScalarField value;\<close>), of which the decoder then
  assigns one member. They are parameters of the model.
\<close>

record TypesUtil =
  Type2InternalScalarFieldTypePB :: "Type \<Rightarrow> nat"
  InternalScalarFieldTypePB2Type :: "nat \<Rightarrow> Type"
  ScalarField_declared :: ScalarField

text \<open>
  A loop of the shape \<^verbatim>\<open>for (x : xs) out.push_back(f(x))\<close> in which \<open>f\<close> can hit a
  \<^verbatim>\<open>CHECK\<close>: \<open>None\<close> as soon as one call aborts.
\<close>

fun push_back_each :: "('a \<Rightarrow> 'b option) \<Rightarrow> 'a list \<Rightarrow> 'b list option" where
  "push_back_each f [] = Some []"
| "push_back_each f (x # xs) =
     (case f x of
        None \<Rightarrow> None
      | Some y \<Rightarrow> (case push_back_each f xs of None \<Rightarrow> None | Some ys \<Rightarrow> Some (y # ys)))"

text \<open>
  \<^verbatim>\<open>insert\<close> on a \<^verbatim>\<open>std::map\<close> or a protobuf map: a key that is present keeps its value.
\<close>

definition map_insert :: "'k \<Rightarrow> 'v \<Rightarrow> ('k \<times> 'v) list \<Rightarrow> ('k \<times> 'v) list" where
  "map_insert k v m = (case map_of m k of None \<Rightarrow> m @ [(k, v)] | Some w \<Rightarrow> m)"

text \<open>
  A loop of the shape \<^verbatim>\<open>for (const auto& [key, value] : src) dst.insert({key, f(value)})\<close>,
  as \<^verbatim>\<open>FillVectorWithIdPB\<close> and \<^verbatim>\<open>InternalVectorIdPB2VectorWithId\<close> run it over the scalar
  data.
\<close>

fun insert_each ::
  "('a \<Rightarrow> 'b option) \<Rightarrow> ('k \<times> 'b) list \<Rightarrow> ('k \<times> 'a) list \<Rightarrow> ('k \<times> 'b) list option"
where
  "insert_each f dst [] = Some dst"
| "insert_each f dst ((key, val) # rest) =
     (case f val of
        None \<Rightarrow> None
      | Some w \<Rightarrow> insert_each f (map_insert key w dst) rest)"

fun ValueType2InternalValueTypePB :: "ValueType \<Rightarrow> ValueTypePB option" where
  "ValueType2InternalValueTypePB kFloat = Some FLOAT"
| "ValueType2InternalValueTypePB kUint8 = Some UINT8"
| "ValueType2InternalValueTypePB kInt8 = Some INT8_T"
| "ValueType2InternalValueTypePB kValueTypeOther = None"

fun InternalMetricTypePB2MetricType :: "MetricTypePB \<Rightarrow> MetricType option" where
  "InternalMetricTypePB2MetricType METRIC_TYPE_NONE = Some kNoneMetricType"
| "InternalMetricTypePB2MetricType METRIC_TYPE_L2 = Some kL2"
| "InternalMetricTypePB2MetricType METRIC_TYPE_INNER_PRODUCT = Some kInnerProduct"
| "InternalMetricTypePB2MetricType METRIC_TYPE_COSINE = Some kCosine"
| "InternalMetricTypePB2MetricType METRIC_TYPE_HAMMING = Some kHamming"
| "InternalMetricTypePB2MetricType MetricTypePB_Other = None"

text \<open>The body of the loop of \<^verbatim>\<open>ScalarValue2InternalScalarValuePB\<close> on a fresh field.\<close>

fun ScalarField2PB :: "Type \<Rightarrow> ScalarField \<Rightarrow> ScalarFieldPB option" where
  "ScalarField2PB kBOOL field = Some (ScalarFieldPB_default\<lparr> pb_bool_data := bool_data field \<rparr>)"
| "ScalarField2PB kINT64 field = Some (ScalarFieldPB_default\<lparr> pb_long_data := long_data field \<rparr>)"
| "ScalarField2PB kDOUBLE field =
     Some (ScalarFieldPB_default\<lparr> pb_double_data := double_data field \<rparr>)"
| "ScalarField2PB kSTRING field =
     Some (ScalarFieldPB_default\<lparr> pb_string_data := string_data field \<rparr>)"
| "ScalarField2PB kTypeOther field = None"

definition ScalarValue2InternalScalarValuePB ::
  "TypesUtil \<Rightarrow> ScalarValue \<Rightarrow> ScalarValuePB option" where
  "ScalarValue2InternalScalarValuePB tu scalar_value =
     (case push_back_each (ScalarField2PB (sv_type scalar_value)) (sv_fields scalar_value) of
        None \<Rightarrow> None
      | Some fs \<Rightarrow>
          Some \<lparr> pb_field_type = Type2InternalScalarFieldTypePB tu (sv_type scalar_value),
                 pb_fields = fs \<rparr>)"

text \<open>The body of the loop of \<^verbatim>\<open>InternalScalarValuePB2ScalarValue\<close>.\<close>

fun PB2ScalarField :: "TypesUtil \<Rightarrow> Type \<Rightarrow> ScalarFieldPB \<Rightarrow> ScalarField option" where
  "PB2ScalarField tu kBOOL field =
     Some ((ScalarField_declared tu)\<lparr> bool_data := pb_bool_data field \<rparr>)"
| "PB2ScalarField tu kINT64 field =
     Some ((ScalarField_declared tu)\<lparr> long_data := pb_long_data field \<rparr>)"
| "PB2ScalarField tu kDOUBLE field =
     Some ((ScalarField_declared tu)\<lparr> double_data := pb_double_data field \<rparr>)"
| "PB2ScalarField tu kSTRING field =
     Some ((ScalarField_declared tu)\<lparr> string_data := pb_string_data field \<rparr>)"
| "PB2ScalarField tu kTypeOther field = None"

definition InternalScalarValuePB2ScalarValue ::
  "TypesUtil \<Rightarrow> ScalarValuePB \<Rightarrow> ScalarValue option" where
  "InternalScalarValuePB2ScalarValue tu pb =
     (let ty = InternalScalarFieldTypePB2Type tu (pb_field_type pb)
      in case push_back_each (PB2ScalarField tu ty) (pb_fields pb) of
           None \<Rightarrow> None
         | Some fs \<Rightarrow> Some \<lparr> sv_type = ty, sv_fields = fs \<rparr>)"

definition FillVectorWithIdPB ::
  "TypesUtil \<Rightarrow> VectorWithIdPB \<Rightarrow> VectorWithId \<Rightarrow> bool \<Rightarrow> VectorWithIdPB option" where
  "FillVectorWithIdPB tu pb vector_with_id with_id =
     (let pb1 = (if with_id then pb\<lparr> pb_id := id vector_with_id \<rparr> else pb);
          v = vector vector_with_id
      in case ValueType2InternalValueTypePB (value_type v) of
           None \<Rightarrow> None
         | Some vt \<Rightarrow>
             (let vector_pb =
                    (pb_vector pb1)\<lparr>
                       pb_dimension := dimension v,
                       pb_value_type := vt,
                       pb_binary_values :=
                         pb_binary_values (pb_vector pb1) @ map (\<lambda>b. [b]) (binary_values v),
                       pb_float_values := pb_float_values (pb_vector pb1) @ float_values v \<rparr>
              in case insert_each (ScalarValue2InternalScalarValuePB tu) (pb_scalar_data pb1)
                     (scalar_data vector_with_id) of
                   None \<Rightarrow> None
                 | Some sd \<Rightarrow> Some (pb1\<lparr> pb_vector := vector_pb, pb_scalar_data := sd \<rparr>)))"

text \<open>
  \<^verbatim>\<open>binary_value[0]\<close> of a \<^verbatim>\<open>std::string\<close>: the first byte, and the terminating zero of an
  empty string.
\<close>

fun first_byte :: "8 word list \<Rightarrow> 8 word" where
  "first_byte [] = 0"
| "first_byte (c # cs) = c"

fun InternalValueTypePB2ValueType :: "ValueTypePB \<Rightarrow> ValueType option" where
  "InternalValueTypePB2ValueType UINT8 = Some kUint8"
| "InternalValueTypePB2ValueType INT8_T = Some kInt8"
| "InternalValueTypePB2ValueType FLOAT = Some kFloat"
| "InternalValueTypePB2ValueType ValueTypePB_Other = None"

text \<open>
  \<^verbatim>\<open>to_return\<close> starts as a default-constructed \<^verbatim>\<open>VectorWithId\<close>: its containers are
  empty, and its id, dimension and value type are assigned before it is returned.
\<close>

definition InternalVectorIdPB2VectorWithId :: "TypesUtil \<Rightarrow> VectorWithIdPB \<Rightarrow> VectorWithId option"
where
  "InternalVectorIdPB2VectorWithId tu pb =
     (let vector_pb = pb_vector pb
      in case InternalValueTypePB2ValueType (pb_value_type vector_pb) of
           None \<Rightarrow> None
         | Some vt \<Rightarrow>
             (case insert_each (InternalScalarValuePB2ScalarValue tu) [] (pb_scalar_data pb) of
                None \<Rightarrow> None
              | Some sd \<Rightarrow>
                  Some \<lparr> id = pb_id pb,
                         vector = \<lparr> dimension = pb_dimension vector_pb, value_type = vt,
                                    float_values = pb_float_values vector_pb,
                                    binary_values = map first_byte (pb_binary_values vector_pb) \<rparr>,
                         scalar_data = sd \<rparr>))"

definition InternalVectorWithDistance2VectorWithDistance ::
  "TypesUtil \<Rightarrow> VectorWithDistancePB \<Rightarrow> VectorWithDistance option" where
  "InternalVectorWithDistance2VectorWithDistance tu pb =
     (case InternalVectorIdPB2VectorWithId tu (pb_vector_with_id pb) of
        None \<Rightarrow> None
      | Some v \<Rightarrow>
          (case InternalMetricTypePB2MetricType (pb_metric_type pb) of
             None \<Rightarrow> None
           | Some mt \<Rightarrow> Some \<lparr> vector_data = v, distance = pb_distance pb, metric_type = mt \<rparr>))"



text \<open>
  An instance of the parameters: the converters send the four scalar types to the numbers
  1, 5, 7, 8 and back, every other number to \<open>kTypeOther\<close>.
\<close>

definition TypesUtil_example :: TypesUtil where
  "TypesUtil_example =
     \<lparr> Type2InternalScalarFieldTypePB =
         (\<lambda>t. case t of kBOOL \<Rightarrow> 1 | kINT64 \<Rightarrow> 5 | kDOUBLE \<Rightarrow> 7 | kSTRING \<Rightarrow> 8
               | kTypeOther \<Rightarrow> 0),
       InternalScalarFieldTypePB2Type =
         (\<lambda>n. if n = 1 then kBOOL else if n = 5 then kINT64 else if n = 7 then kDOUBLE
               else if n = 8 then kSTRING else kTypeOther),
       ScalarField_declared =
         \<lparr> bool_data = False, long_data = 0, double_data = 0, string_data = [] \<rparr> \<rparr>"

definition VectorWithId_example :: VectorWithId where
  "VectorWithId_example =
     \<lparr> id = 42,
       vector = \<lparr> dimension = 2, value_type = kFloat, float_values = [1/2, 3],
                  binary_values = [255] \<rparr>,
       scalar_data =
         [(''n'', \<lparr> sv_type = kINT64,
                    sv_fields = [\<lparr> bool_data = True, long_data = 5, double_data = 0,
                                   string_data = ''x'' \<rparr>] \<rparr>)] \<rparr>"



text \<open>A search parameter used to exercise the functions: top 3, two extra parameters.\<close>

definition SearchParam_example :: SearchParam where
  "SearchParam_example =
     \<lparr> topk = 3, with_vector_data = True, with_scalar_data = False,
       selected_keys = [''color''], with_table_data = False, enable_range_search = False,
       filter_source = kScalarFilter, filter_type = kQueryPre, vector_ids = [7, 9],
       is_negation = False, is_sorted = True, use_brute_force = False, beamwidth = 2,
       langchain_expr_json = [],
       extra_params = [kNprobe \<mapsto> 8, kEfSearch \<mapsto> 5] \<rparr>"

section \<open>Regions, contexts and completion\<close>

text \<open>
  A region as the tasks see it through \<^verbatim>\<open>std::shared_ptr<Region>\<close>: \<^verbatim>\<open>RegionId()\<close> and
  \<^verbatim>\<open>Epoch()\<close>, the epoch being a pair (conf_ver, version).
\<close>

record Region =
  RegionId :: int
  Epoch :: "nat \<times> nat"

record RpcContext =
  pb_region_id :: int
  pb_region_epoch :: "nat \<times> nat"

text \<open>
  Modelled from the spec: \<^verbatim>\<open>FillRpcContext\<close> of sdk/common/common.h is not among the
  sources. Callers pass the region's epoch with each RPC, and the callbacks read the
  region id back with \<^verbatim>\<open>context().region_id()\<close>: the context holds the two.
\<close>

definition FillRpcContext :: "int \<Rightarrow> nat \<times> nat \<Rightarrow> RpcContext" where
  "FillRpcContext region_id epoch = \<lparr> pb_region_id = region_id, pb_region_epoch = epoch \<rparr>"

text \<open>\<^verbatim>\<open>std::to_string\<close> of a 64-bit integer: decimal digits, a minus sign when negative.\<close>

fun digits :: "nat \<Rightarrow> string" where
  "digits n =
     (if n < 10 then [char_of (48 + n)] else digits (n div 10) @ [char_of (48 + n mod 10)])"

definition to_string :: "int \<Rightarrow> string" where
  "to_string i = (if i < 0 then CHR ''-'' # digits (nat (- i)) else digits (nat i))"

text \<open>
  An unordered map of vectors is an association list with one entry per key; a new key
  goes to the end, and the list order stands for the iteration order, which the container
  leaves unspecified. \<open>append_at k vs m\<close> appends \<open>vs\<close> to the vector under \<open>k\<close>, creating
  the entry when the key is absent; \<^verbatim>\<open>m[k].push_back(x)\<close> is the case of one element.
\<close>

fun append_at :: "'k \<Rightarrow> 'v list \<Rightarrow> ('k \<times> 'v list) list \<Rightarrow> ('k \<times> 'v list) list" where
  "append_at k vs [] = [(k, vs)]"
| "append_at k vs ((k', xs) # m) =
     (if k = k' then (k', xs @ vs) # m else (k', xs) # append_at k vs m)"

definition push_back_at :: "'k \<Rightarrow> 'v \<Rightarrow> ('k \<times> 'v list) list \<Rightarrow> ('k \<times> 'v list) list" where
  "push_back_at k x m = append_at k [x] m"

text \<open>\<^verbatim>\<open>m[k] = v\<close> on a map.\<close>

fun map_assign :: "'k \<Rightarrow> 'v \<Rightarrow> ('k \<times> 'v) list \<Rightarrow> ('k \<times> 'v) list" where
  "map_assign k v [] = [(k, v)]"
| "map_assign k v ((k', w) # m) = (if k = k' then (k', v) # m else (k', w) # map_assign k v m)"

text \<open>The vector stored under a key of such a map, empty when the key is absent.\<close>

definition entries_at :: "'k \<Rightarrow> ('k \<times> 'v list) list \<Rightarrow> 'v list" where
  "entries_at k m = (case map_of m k of None \<Rightarrow> [] | Some xs \<Rightarrow> xs)"

text \<open>\<^verbatim>\<open>erase(k)\<close> on a map, and on a \<^verbatim>\<open>std::set\<close> kept as an ascending list.\<close>

definition map_erase :: "'k \<Rightarrow> ('k \<times> 'v) list \<Rightarrow> ('k \<times> 'v) list" where
  "map_erase k m = filter (\<lambda>kv. fst kv \<noteq> k) m"


text \<open>
  The grouping loop that \<^verbatim>\<open>VectorUpsertTask::DoAsync\<close> and
  \<^verbatim>\<open>DocumentBatchQueryTask::DoAsync\<close> share word for word. \<open>lookup\<close> stands for
  \<^verbatim>\<open>meta_cache->LookupRegionByKey(...IdToRangeKey(index, id), tmp)\<close>: the key codec and the
  meta cache are not among the sources. The first failing lookup ends the loop with its
  status.
\<close>

fun GroupByRegion ::
  "(int \<Rightarrow> Status + Region) \<Rightarrow> int list \<Rightarrow> (int \<times> Region) list \<Rightarrow> (int \<times> int list) list
     \<Rightarrow> Status + ((int \<times> Region) list \<times> (int \<times> int list) list)" where
  "GroupByRegion lookup [] region_id_to_region region_to_ids =
     Inr (region_id_to_region, region_to_ids)"
| "GroupByRegion lookup (i # ids) region_id_to_region region_to_ids =
     (case lookup i of
        Inl s \<Rightarrow> Inl s
      | Inr tmp \<Rightarrow>
          GroupByRegion lookup ids
            (map_insert (RegionId tmp) tmp region_id_to_region)
            (push_back_at (RegionId tmp) i region_to_ids))"

section \<open>The upsert task (vector_upsert_task.cc)\<close>

record VectorAddRequest =
  pb_add_context :: RpcContext
  pb_is_update :: bool
  pb_vectors :: "VectorWithIdPB list"

text \<open>
  The members of the task. A \<^verbatim>\<open>StoreRpcController\<close> is built from an RPC and a region and
  is kept as that pair. \<open>upsert_done\<close> lists the statuses handed to \<^verbatim>\<open>DoAsyncDone\<close>, and
  \<open>upsert_calls\<close> the requests on which \<^verbatim>\<open>AsyncCall\<close> was invoked, oldest first.
\<close>

record VectorUpsertTask =
  upsert_vectors :: "VectorWithId list"
  upsert_vector_id_to_idx :: "(int \<times> nat) list"
  upsert_status :: Status
  upsert_controllers :: "(VectorAddRequest \<times> Region) list"
  upsert_rpcs :: "VectorAddRequest list"
  upsert_sub_tasks_count :: int
  upsert_done :: "Status list"
  upsert_calls :: "VectorAddRequest list"

definition VectorUpsertTask_new :: "VectorWithId list \<Rightarrow> VectorUpsertTask" where
  "VectorUpsertTask_new vectors =
     \<lparr> upsert_vectors = vectors, upsert_vector_id_to_idx = [], upsert_status = OK,
       upsert_controllers = [], upsert_rpcs = [], upsert_sub_tasks_count = 0,
       upsert_done = [], upsert_calls = [] \<rparr>"

text \<open>The second loop of \<^verbatim>\<open>Init\<close>: \<open>insert\<close> fails on an id that is already a key.\<close>

fun UpsertInitLoop ::
  "(int \<times> nat) list \<Rightarrow> nat \<Rightarrow> VectorWithId list \<Rightarrow> Status \<times> (int \<times> nat) list" where
  "UpsertInitLoop m i [] = (OK, m)"
| "UpsertInitLoop m i (v # vs) =
     (case map_of m (id v) of
        Some j \<Rightarrow> (InvalidArgument (''duplicate vector id: '' @ to_string (id v)), m)
      | None \<Rightarrow> UpsertInitLoop (m @ [(id v, i)]) (Suc i) vs)"

text \<open>
  \<^verbatim>\<open>Init\<close>. \<open>index_lookup\<close> is the status of \<^verbatim>\<open>GetVectorIndexById\<close> (the index cache is not
  among the sources). The first loop returns at the first id that is not positive.
\<close>

definition VectorUpsertTask_Init :: "Status \<Rightarrow> VectorUpsertTask \<Rightarrow> Status \<times> VectorUpsertTask"
where
  "VectorUpsertTask_Init index_lookup t =
     (if upsert_vectors t = []
      then (InvalidArgument ''vectors is empty, no need update vector'', t)
      else if \<not> ok index_lookup then (index_lookup, t)
      else if list_ex (\<lambda>v. id v \<le> 0) (upsert_vectors t)
      then (InvalidArgument ''vector id must be positive'', t)
      else (case UpsertInitLoop [] 0 (upsert_vectors t) of
              (s, m) \<Rightarrow> (s, t\<lparr> upsert_vector_id_to_idx := m \<rparr>)))"

text \<open>
  One iteration of the loop that builds the RPCs. \<open>None\<close> is an abort: the
  \<^verbatim>\<open>CHECK\<close> on the region map, an index outside \<^verbatim>\<open>vectors_\<close>, or a \<^verbatim>\<open>CHECK\<close> inside
  \<^verbatim>\<open>FillVectorWithIdPB\<close>. \<^verbatim>\<open>vector_id_to_idx_[id]\<close> yields 0 for an absent id.
\<close>

definition UpsertVectorPB :: "TypesUtil \<Rightarrow> VectorUpsertTask \<Rightarrow> int \<Rightarrow> VectorWithIdPB option" where
  "UpsertVectorPB tu t i =
     (let idx = (case map_of (upsert_vector_id_to_idx t) i of None \<Rightarrow> 0 | Some j \<Rightarrow> j)
      in if idx < length (upsert_vectors t)
         then FillVectorWithIdPB tu VectorWithIdPB_default (upsert_vectors t ! idx) True
         else None)"

definition BuildAddRpc ::
  "TypesUtil \<Rightarrow> VectorUpsertTask \<Rightarrow> (int \<times> Region) list \<Rightarrow> int \<times> int list
     \<Rightarrow> (VectorAddRequest \<times> Region) option" where
  "BuildAddRpc tu t region_id_to_region entry =
     (case map_of region_id_to_region (fst entry) of
        None \<Rightarrow> None
      | Some region \<Rightarrow>
          (case push_back_each (UpsertVectorPB tu t) (snd entry) of
             None \<Rightarrow> None
           | Some vs \<Rightarrow>
               Some (\<lparr> pb_add_context = FillRpcContext (fst entry) (Epoch region),
                       pb_is_update = True, pb_vectors = vs \<rparr>, region)))"

definition VectorUpsertTask_DoAsync ::
  "TypesUtil \<Rightarrow> (int \<Rightarrow> Status + Region) \<Rightarrow> VectorUpsertTask \<Rightarrow> VectorUpsertTask option" where
  "VectorUpsertTask_DoAsync tu lookup t =
     (let next_batch = upsert_vector_id_to_idx t;
          t1 = t\<lparr> upsert_status := OK \<rparr>
      in if next_batch = [] then Some (t1\<lparr> upsert_done := upsert_done t1 @ [OK] \<rparr>)
         else (case GroupByRegion lookup (map fst next_batch) [] [] of
                 Inl s \<Rightarrow> Some (t1\<lparr> upsert_done := upsert_done t1 @ [s] \<rparr>)
               | Inr (region_id_to_region, region_vectors_to_ids) \<Rightarrow>
                   (case push_back_each (BuildAddRpc tu t1 region_id_to_region)
                           region_vectors_to_ids of
                      None \<Rightarrow> None
                    | Some crs \<Rightarrow>
                        Some (t1\<lparr> upsert_controllers := crs,
                                  upsert_rpcs := map fst crs,
                                  upsert_sub_tasks_count := int (length region_vectors_to_ids),
                                  upsert_calls := upsert_calls t1 @ map fst crs \<rparr>))))"

text \<open>
  \<^verbatim>\<open>VectorAddRpcCallback\<close>, in two halves: the if statement that latches the first failure
  or erases the acknowledged ids, and the countdown. \<^verbatim>\<open>fetch_sub(1)\<close> returns the count
  before the decrement; the callback that reads 1 hands the latched status to
  \<^verbatim>\<open>DoAsyncDone\<close>.
\<close>

definition VectorAddRpcMerge ::
  "Status \<Rightarrow> VectorAddRequest \<Rightarrow> VectorUpsertTask \<Rightarrow> VectorUpsertTask" where
  "VectorAddRpcMerge status rpc t =
     (if \<not> ok status
      then (if ok (upsert_status t) then t\<lparr> upsert_status := status \<rparr> else t)
      else t\<lparr> upsert_vector_id_to_idx :=
                fold (\<lambda>v m. map_erase (pb_id v) m) (pb_vectors rpc)
                  (upsert_vector_id_to_idx t) \<rparr>)"

definition VectorAddRpcCallback ::
  "Status \<Rightarrow> VectorAddRequest \<Rightarrow> VectorUpsertTask \<Rightarrow> VectorUpsertTask" where
  "VectorAddRpcCallback status rpc t =
     (let t1 = VectorAddRpcMerge status rpc t;
          before = upsert_sub_tasks_count t1;
          t2 = t1\<lparr> upsert_sub_tasks_count := before - 1 \<rparr>
      in if before = 1 then t2\<lparr> upsert_done := upsert_done t2 @ [upsert_status t2] \<rparr> else t2)"

text \<open>The callbacks of a run, in arrival order.\<close>

fun VectorUpsertTask_callbacks ::
  "(Status \<times> VectorAddRequest) list \<Rightarrow> VectorUpsertTask \<Rightarrow> VectorUpsertTask" where
  "VectorUpsertTask_callbacks [] t = t"
| "VectorUpsertTask_callbacks ((status, rpc) # evs) t =
     VectorUpsertTask_callbacks evs (VectorAddRpcCallback status rpc t)"

section \<open>The document batch query task (document_batch_query_task.cc)\<close>


record DocumentBatchQueryRequest =
  pb_query_context :: RpcContext
  pb_query_without_scalar_data :: bool
  pb_query_selected_keys :: "string list"
  pb_document_ids :: "int list"


text \<open>
  The members of the task: \<^verbatim>\<open>query_param_\<close> (three fields), the \<^verbatim>\<open>std::set\<close> \<^verbatim>\<open>doc_ids_\<close> as
  an ascending list, and \<^verbatim>\<open>out_result_.docs\<close>; \<open>'d\<close> is the type of a translated document.
\<close>

record 'd DocumentBatchQueryTask =
  query_doc_ids :: "int list"
  query_with_scalar_data :: bool
  query_selected_keys :: "string list"
  query_pending_doc_ids :: "int list"
  query_status :: Status
  query_controllers :: "(DocumentBatchQueryRequest \<times> Region) list"
  query_rpcs :: "DocumentBatchQueryRequest list"
  query_sub_tasks_count :: int
  query_out_docs :: "'d list"
  query_done :: "Status list"
  query_calls :: "DocumentBatchQueryRequest list"

definition DocumentBatchQueryTask_new ::
  "int list \<Rightarrow> bool \<Rightarrow> string list \<Rightarrow> 'd DocumentBatchQueryTask" where
  "DocumentBatchQueryTask_new doc_ids with_scalar keys =
     \<lparr> query_doc_ids = doc_ids, query_with_scalar_data = with_scalar,
       query_selected_keys = keys, query_pending_doc_ids = [], query_status = OK,
       query_controllers = [], query_rpcs = [], query_sub_tasks_count = 0,
       query_out_docs = [], query_done = [], query_calls = [] \<rparr>"

text \<open>The loop of \<^verbatim>\<open>Init\<close> over \<^verbatim>\<open>query_param_.doc_ids\<close>.\<close>

fun BatchQueryInitLoop :: "int list \<Rightarrow> int list \<Rightarrow> Status \<times> int list" where
  "BatchQueryInitLoop s [] = (OK, s)"
| "BatchQueryInitLoop s (i # ids) =
     (if i \<le> 0 then (InvalidArgument (''invalid document id: '' @ to_string i), s)
      else if i \<in> set s then (InvalidArgument (''duplicate document id: '' @ to_string i), s)
      else BatchQueryInitLoop (insort i s) ids)"

text \<open>\<open>index_lookup\<close> is the status of \<^verbatim>\<open>GetDocumentIndexById\<close>, consulted after the loop.\<close>

definition DocumentBatchQueryTask_Init ::
  "Status \<Rightarrow> 'd DocumentBatchQueryTask \<Rightarrow> Status \<times> 'd DocumentBatchQueryTask" where
  "DocumentBatchQueryTask_Init index_lookup t =
     (case BatchQueryInitLoop (query_pending_doc_ids t) (query_doc_ids t) of
        (s, ids) \<Rightarrow>
          (let t1 = t\<lparr> query_pending_doc_ids := ids \<rparr>
           in if \<not> ok s then (s, t1)
              else if \<not> ok index_lookup then (index_lookup, t1)
              else (OK, t1)))"

definition BuildQueryRpc ::
  "'d DocumentBatchQueryTask \<Rightarrow> (int \<times> Region) list \<Rightarrow> int \<times> int list
     \<Rightarrow> (DocumentBatchQueryRequest \<times> Region) option" where
  "BuildQueryRpc t region_id_to_region entry =
     (case map_of region_id_to_region (fst entry) of
        None \<Rightarrow> None
      | Some region \<Rightarrow>
          Some (\<lparr> pb_query_context = FillRpcContext (fst entry) (Epoch region),
                  pb_query_without_scalar_data = (\<not> query_with_scalar_data t),
                  pb_query_selected_keys =
                    (if query_with_scalar_data t then query_selected_keys t else []),
                  pb_document_ids = snd entry \<rparr>, region))"

definition DocumentBatchQueryTask_DoAsync ::
  "(int \<Rightarrow> Status + Region) \<Rightarrow> 'd DocumentBatchQueryTask \<Rightarrow> 'd DocumentBatchQueryTask option"
where
  "DocumentBatchQueryTask_DoAsync lookup t =
     (let next_batch = query_pending_doc_ids t;
          t1 = t\<lparr> query_status := OK \<rparr>
      in if next_batch = [] then Some (t1\<lparr> query_done := query_done t1 @ [OK] \<rparr>)
         else (case GroupByRegion lookup next_batch [] [] of
                 Inl s \<Rightarrow> Some (t1\<lparr> query_done := query_done t1 @ [s] \<rparr>)
               | Inr (region_id_to_region, region_id_to_doc_ids) \<Rightarrow>
                   (case push_back_each (BuildQueryRpc t1 region_id_to_region)
                           region_id_to_doc_ids of
                      None \<Rightarrow> None
                    | Some crs \<Rightarrow>
                        Some (t1\<lparr> query_controllers := crs,
                                  query_rpcs := map fst crs,
                                  query_sub_tasks_count := int (length region_id_to_doc_ids),
                                  query_calls := query_calls t1 @ map fst crs \<rparr>))))"




section \<open>The search tasks (vector_search_task.cc)\<close>

record VectorSearchRequest =
  pb_search_context :: RpcContext
  pb_parameter :: VectorSearchParameter
  pb_vector_with_ids :: "VectorWithIdPB list"

text \<open>\<open>pb_batch_results ! i\<close> is \<^verbatim>\<open>batch_results(i).vector_with_distances()\<close>.\<close>

record VectorSearchResponse =
  pb_batch_results :: "VectorWithDistancePB list list"

subsection \<open>The part task: one partition, one RPC per region\<close>

record VectorSearchPartTask =
  part_id :: int
  part_search_parameter :: VectorSearchParameter
  part_target_vectors :: "VectorWithId list"
  part_regions :: "Region list"
  part_region_id_to_region_index :: "(int \<times> nat) list"
  part_status :: Status
  part_search_result :: "(nat \<times> VectorWithDistance list) list"
  part_controllers :: "(VectorSearchRequest \<times> Region) list"
  part_rpcs :: "VectorSearchRequest list"
  part_nodata_region_ids :: "int list"
  part_nodata_controllers :: "(VectorSearchRequest \<times> Region) list"
  part_nodata_rpcs :: "VectorSearchRequest list"
  part_sub_tasks_count :: int
  part_nodata_tasks_count :: int
  part_done :: "Status list"
  part_calls :: "VectorSearchRequest list"


text \<open>
  The request both \<^verbatim>\<open>FillVectorSearchRpcRequest\<close> and \<^verbatim>\<open>SearchByBruteForce\<close> build: the
  context of the region, a parameter, and every target vector encoded without its id.
\<close>

definition SearchRequestFor ::
  "TypesUtil \<Rightarrow> VectorSearchParameter \<Rightarrow> VectorWithId list \<Rightarrow> Region
     \<Rightarrow> VectorSearchRequest option" where
  "SearchRequestFor tu parameter target_vectors region =
     (case push_back_each (\<lambda>v. FillVectorWithIdPB tu VectorWithIdPB_default v False)
             target_vectors of
        None \<Rightarrow> None
      | Some vs \<Rightarrow>
          Some \<lparr> pb_search_context = FillRpcContext (RegionId region) (Epoch region),
                 pb_parameter = parameter, pb_vector_with_ids = vs \<rparr>)"

definition FillVectorSearchRpcRequest ::
  "TypesUtil \<Rightarrow> VectorSearchPartTask \<Rightarrow> Region \<Rightarrow> VectorSearchRequest option" where
  "FillVectorSearchRpcRequest tu t region =
     SearchRequestFor tu (part_search_parameter t) (part_target_vectors t) region"

text \<open>The first loop of \<^verbatim>\<open>DoAsync\<close>, from index \<open>i\<close> on.\<close>

fun PartBuildRpcs ::
  "TypesUtil \<Rightarrow> nat \<Rightarrow> Region list \<Rightarrow> VectorSearchPartTask \<Rightarrow> VectorSearchPartTask option" where
  "PartBuildRpcs tu i [] t = Some t"
| "PartBuildRpcs tu i (region # rest) t =
     (case FillVectorSearchRpcRequest tu t region of
        None \<Rightarrow> None
      | Some rpc \<Rightarrow>
          PartBuildRpcs tu (Suc i) rest
            (t\<lparr> part_region_id_to_region_index :=
                   map_assign (RegionId region) i (part_region_id_to_region_index t),
                 part_controllers := part_controllers t @ [(rpc, region)],
                 part_rpcs := part_rpcs t @ [rpc] \<rparr>))"

text \<open>
  \<^verbatim>\<open>DoAsync\<close>. \<open>scan\<close> is the outcome of \<^verbatim>\<open>ScanRegionsBetweenContinuousRange\<close> on the range of
  the partition (the meta cache is not among the sources): a status, or the regions it
  leaves in \<^verbatim>\<open>regions_\<close>.
\<close>

definition VectorSearchPartTask_DoAsync ::
  "TypesUtil \<Rightarrow> Status + Region list \<Rightarrow> VectorSearchPartTask \<Rightarrow> VectorSearchPartTask option"
where
  "VectorSearchPartTask_DoAsync tu scan t =
     (case scan of
        Inl s \<Rightarrow> Some (t\<lparr> part_done := part_done t @ [s] \<rparr>)
      | Inr regions \<Rightarrow>
          (case PartBuildRpcs tu 0 regions
                  (t\<lparr> part_regions := regions, part_search_result := [], part_status := OK,
                      part_controllers := [], part_rpcs := [], part_nodata_region_ids := [],
                      part_nodata_rpcs := [] \<rparr>) of
             None \<Rightarrow> None
           | Some t1 \<Rightarrow>
               Some (t1\<lparr> part_sub_tasks_count := int (length regions),
                         part_calls :=
                           part_calls t1 @
                           map (\<lambda>i. fst (part_controllers t1 ! i)) [0 ..< length regions] \<rparr>)))"

text \<open>
  The merge loops of \<^verbatim>\<open>VectorSearchRpcCallback\<close> and \<^verbatim>\<open>NodataRegionRpcCallback\<close>: the inner
  loop over the candidates of query \<open>i\<close>, and the outer loop over \<^verbatim>\<open>batch_results\<close>.
\<close>

fun MergeCandidates ::
  "TypesUtil \<Rightarrow> nat \<Rightarrow> VectorWithDistancePB list \<Rightarrow> (nat \<times> VectorWithDistance list) list
     \<Rightarrow> (nat \<times> VectorWithDistance list) list option" where
  "MergeCandidates tu i [] sr = Some sr"
| "MergeCandidates tu i (distancepb # rest) sr =
     (case InternalVectorWithDistance2VectorWithDistance tu distancepb of
        None \<Rightarrow> None
      | Some d \<Rightarrow> MergeCandidates tu i rest (push_back_at i d sr))"

fun MergeBatchResults ::
  "TypesUtil \<Rightarrow> nat \<Rightarrow> VectorWithDistancePB list list \<Rightarrow> (nat \<times> VectorWithDistance list) list
     \<Rightarrow> (nat \<times> VectorWithDistance list) list option" where
  "MergeBatchResults tu i [] sr = Some sr"
| "MergeBatchResults tu i (batch # rest) sr =
     (case MergeCandidates tu i batch sr of
        None \<Rightarrow> None
      | Some sr' \<Rightarrow> MergeBatchResults tu (Suc i) rest sr')"

definition PartDone :: "VectorSearchPartTask \<Rightarrow> VectorSearchPartTask" where
  "PartDone t = t\<lparr> part_done := part_done t @ [part_status t] \<rparr>"




text \<open>
  \<^verbatim>\<open>VectorSearchRpcCallback\<close> and \<^verbatim>\<open>NodataRegionRpcCallback\<close>, each as its if statement
  followed by its countdown. In the first, a failure with \<^verbatim>\<open>EDISKANN_IS_NO_DATA\<close> queues
  the region id, any other failure is latched, a success is merged, and the callback that
  reads 1 from the counter goes on to \<^verbatim>\<open>CheckNoDataRegion\<close>. In the second every failure
  is latched, and the callback that reads 1 calls \<^verbatim>\<open>Done\<close>.
\<close>

definition VectorSearchRpcMerge ::
  "TypesUtil \<Rightarrow> Status \<Rightarrow> VectorSearchRequest \<Rightarrow> VectorSearchResponse \<Rightarrow> VectorSearchPartTask
     \<Rightarrow> VectorSearchPartTask option" where
  "VectorSearchRpcMerge tu status request response t =
     (if \<not> ok status
      then (if StatusErrno status = Some EDISKANN_IS_NO_DATA
            then Some (t\<lparr> part_nodata_region_ids :=
                            part_nodata_region_ids t @
                            [pb_region_id (pb_search_context request)] \<rparr>)
            else Some (if ok (part_status t) then t\<lparr> part_status := status \<rparr> else t))
      else (case MergeBatchResults tu 0 (pb_batch_results response) (part_search_result t) of
              None \<Rightarrow> None
            | Some sr \<Rightarrow> Some (t\<lparr> part_search_result := sr \<rparr>)))"


definition NodataRegionRpcMerge ::
  "TypesUtil \<Rightarrow> Status \<Rightarrow> VectorSearchRequest \<Rightarrow> VectorSearchResponse \<Rightarrow> VectorSearchPartTask
     \<Rightarrow> VectorSearchPartTask option" where
  "NodataRegionRpcMerge tu status request response t =
     (if \<not> ok status
      then Some (if ok (part_status t) then t\<lparr> part_status := status \<rparr> else t)
      else (case MergeBatchResults tu 0 (pb_batch_results response) (part_search_result t) of
              None \<Rightarrow> None
            | Some sr \<Rightarrow> Some (t\<lparr> part_search_result := sr \<rparr>)))"

definition NodataRegionRpcCallback ::
  "TypesUtil \<Rightarrow> Status \<Rightarrow> VectorSearchRequest \<Rightarrow> VectorSearchResponse \<Rightarrow> VectorSearchPartTask
     \<Rightarrow> VectorSearchPartTask option" where
  "NodataRegionRpcCallback tu status request response t =
     (case NodataRegionRpcMerge tu status request response t of
           None \<Rightarrow> None
         | Some t1 \<Rightarrow>
             (let before = part_nodata_tasks_count t1;
                  t2 = t1\<lparr> part_nodata_tasks_count := before - 1 \<rparr>
              in Some (if before = 1 then PartDone t2 else t2)))"



subsection \<open>The top task: one part task per partition\<close>

text \<open>
  \<^verbatim>\<open>SearchResult\<close>: the query vector it answers and the candidates. \<^verbatim>\<open>ConstructResultUnlocked\<close>
  builds the former from a default-constructed \<^verbatim>\<open>VectorWithId\<close> into which it copies the four
  members of the vector: the id stays what the constructor made it and there is no scalar
  data.
\<close>

record SearchResult =
  result_vector :: VectorWithId
  vector_datas :: "VectorWithDistance list"


text \<open>
  The members of the top task. \<open>search_next_part_ids\<close> is the \<^verbatim>\<open>std::set\<close> of partition ids
  as an ascending list; \<open>search_sub_tasks\<close> lists the partitions for which a part task was
  created and started.
\<close>

record VectorSearchTask =
  search_target_vectors :: "VectorWithId list"
  search_param :: SearchParam
  search_parameter :: VectorSearchParameter
  search_next_part_ids :: "int list"
  search_status :: Status
  search_tmp_out_result :: "(nat \<times> VectorWithDistance list) list"
  search_out_result :: "SearchResult list"
  search_sub_tasks_count :: int
  search_done :: "Status list"
  search_sub_tasks :: "int list"

text \<open>
  The task when \<^verbatim>\<open>DoAsync\<close> is first called: \<^verbatim>\<open>Init\<close> has put the partition ids of the index
  into \<^verbatim>\<open>next_part_ids_\<close> and built \<^verbatim>\<open>search_parameter_\<close>; the accumulators are empty.
\<close>

definition VectorSearchTask_ready ::
  "VectorWithId list \<Rightarrow> SearchParam \<Rightarrow> VectorSearchParameter \<Rightarrow> int list \<Rightarrow> VectorSearchTask"
where
  "VectorSearchTask_ready target_vectors param parameter part_ids =
     \<lparr> search_target_vectors = target_vectors, search_param = param,
       search_parameter = parameter, search_next_part_ids = part_ids, search_status = OK,
       search_tmp_out_result = [], search_out_result = [], search_sub_tasks_count = 0,
       search_done = [], search_sub_tasks = [] \<rparr>"

definition VectorSearchTask_DoAsync :: "VectorSearchTask \<Rightarrow> VectorSearchTask" where
  "VectorSearchTask_DoAsync t =
     (let next_part_ids = search_next_part_ids t;
          t1 = t\<lparr> search_status := OK \<rparr>
      in if next_part_ids = [] then t1\<lparr> search_done := search_done t1 @ [OK] \<rparr>
         else t1\<lparr> search_sub_tasks_count := int (length next_part_ids),
                  search_sub_tasks := search_sub_tasks t1 @ next_part_ids \<rparr>)"








section \<open>Example inputs\<close>

definition VectorWithId_with_id :: "int \<Rightarrow> VectorWithId" where
  "VectorWithId_with_id i = VectorWithId_example\<lparr> id := i \<rparr>"







text \<open>Three regions, and a lookup that sends the ids 1 and 2 to the first of them.\<close>

definition Region_example :: "int \<Rightarrow> Region" where
  "Region_example r = \<lparr> RegionId = r, Epoch = (1, 1) \<rparr>"

definition lookup_example :: "int \<Rightarrow> Status + Region" where
  "lookup_example i =
     (if i \<le> 2 then Inr (Region_example 10)
      else if i = 3 then Inr (Region_example 20)
      else Inr (Region_example 21))"




section \<open>The first failure of a run\<close>


definition is_no_data :: "Status \<Rightarrow> bool" where
  "is_no_data s = (StatusErrno s = Some EDISKANN_IS_NO_DATA)"

section \<open>What a run has merged\<close>


fun VectorSearchRpc_merges ::
  "TypesUtil \<Rightarrow> (Status \<times> VectorSearchRequest \<times> VectorSearchResponse) list
     \<Rightarrow> VectorSearchPartTask \<Rightarrow> VectorSearchPartTask option" where
  "VectorSearchRpc_merges tu [] t = Some t"
| "VectorSearchRpc_merges tu ((status, request, response) # evs) t =
     (case VectorSearchRpcMerge tu status request response t of
        None \<Rightarrow> None
      | Some t' \<Rightarrow> VectorSearchRpc_merges tu evs t')"

text \<open>
  The candidates that a response holds for query \<open>q\<close>, decoded, and the concatenation of
  those of the successful responses of a run, in arrival order.
\<close>

definition DecodeBatches ::
  "TypesUtil \<Rightarrow> VectorSearchResponse \<Rightarrow> VectorWithDistance list list option" where
  "DecodeBatches tu response =
     push_back_each (push_back_each (InternalVectorWithDistance2VectorWithDistance tu))
       (pb_batch_results response)"

definition ResponseCandidates ::
  "TypesUtil \<Rightarrow> VectorSearchResponse \<Rightarrow> nat \<Rightarrow> VectorWithDistance list" where
  "ResponseCandidates tu response q =
     (case DecodeBatches tu response of
        None \<Rightarrow> []
      | Some dss \<Rightarrow> if q < length dss then dss ! q else [])"

definition MergedCandidates ::
  "TypesUtil \<Rightarrow> (Status \<times> VectorSearchRequest \<times> VectorSearchResponse) list \<Rightarrow> nat
     \<Rightarrow> VectorWithDistance list" where
  "MergedCandidates tu evs q =
     concat (map (\<lambda>ev. if ok (fst ev) then ResponseCandidates tu (snd (snd ev)) q else []) evs)"


text \<open>The region ids of the events of a run that failed with \<^verbatim>\<open>EDISKANN_IS_NO_DATA\<close>.\<close>

definition NoDataRegions ::
  "(Status \<times> VectorSearchRequest \<times> VectorSearchResponse) list \<Rightarrow> int list" where
  "NoDataRegions evs =
     map (\<lambda>ev. pb_region_id (pb_search_context (fst (snd ev))))
       (filter (\<lambda>ev. is_no_data (fst ev)) evs)"

text \<open>Two failures and a no-data failure, and tasks that wait for two callbacks.\<close>

definition Status_E1 :: Status where
  "Status_E1 = Failed (EOther 1) ''E1''"

definition Status_E2 :: Status where
  "Status_E2 = Failed (EOther 2) ''E2''"

definition Status_NoData :: Status where
  "Status_NoData = Failed EDISKANN_IS_NO_DATA ''no data''"

definition VectorAddRequest_example :: "int \<Rightarrow> int list \<Rightarrow> VectorAddRequest" where
  "VectorAddRequest_example r ids =
     \<lparr> pb_add_context = FillRpcContext r (1, 1), pb_is_update = True,
       pb_vectors = map (\<lambda>i. VectorWithIdPB_default\<lparr> pb_id := i \<rparr>) ids \<rparr>"

definition VectorUpsertTask_example :: VectorUpsertTask where
  "VectorUpsertTask_example =
     (VectorUpsertTask_new [VectorWithId_with_id 1, VectorWithId_with_id 3])\<lparr>
        upsert_vector_id_to_idx := [(1, 0), (3, 1)], upsert_sub_tasks_count := 2 \<rparr>"




text \<open>
  Every id of a group sits under the id of the region that its lookup returns. This
  predicate only serves to state the properties below.
\<close>

definition routed :: "(int \<Rightarrow> Status + Region) \<Rightarrow> (int \<times> int list) list \<Rightarrow> bool" where
  "routed lookup G =
     (\<forall>kv \<in> set G. \<forall>i \<in> set (snd kv). \<exists>r. lookup i = Inr r \<and> RegionId r = fst kv)"

(*DEFS-END*)

section \<open>Verified properties\<close>

subsection \<open>The wire form of the search parameter\<close>




subsection \<open>Encoding and decoding a vector\<close>

lemma push_back_each_Some:
  "(push_back_each f xs = Some ys) = (map f xs = map Some ys)"
proof (induction xs arbitrary: ys)
  case Nil
  then show ?case by auto
next
  case (Cons x xs)
  show ?case
  proof (cases "push_back_each f xs")
    case None
    with Cons.IH have "\<And>zs. map f xs \<noteq> map Some zs" by simp
    with None show ?thesis by (cases ys) (auto split: option.splits)
  next
    case (Some zs)
    with Cons.IH [of zs] have "map f xs = map Some zs" by simp
    with Some show ?thesis by (cases ys) (auto split: option.splits)
  qed
qed











subsection \<open>Validation in Init\<close>

lemma BatchQueryInitLoop_rejects:
  "list_ex (\<lambda>i. i \<le> 0) ids \<or> \<not> distinct ids \<or> set ids \<inter> set s \<noteq> {} \<Longrightarrow>
   IsInvalidArgument (fst (BatchQueryInitLoop s ids))"
proof (induction ids arbitrary: s)
  case Nil
  then show ?case by simp
next
  case (Cons i ids)
  show ?case
  proof (cases "i \<le> 0 \<or> i \<in> set s")
    case True
    then show ?thesis by auto
  next
    case False
    with Cons.prems
    have "list_ex (\<lambda>i. i \<le> 0) ids \<or> \<not> distinct ids \<or> set ids \<inter> set (insort i s) \<noteq> {}"
      by (auto simp: set_insort_key)
    from Cons.IH [OF this] False show ?thesis by simp
  qed
qed

lemma BatchQueryInitLoop_accepts:
  "\<not> list_ex (\<lambda>i. i \<le> 0) ids \<Longrightarrow> distinct ids \<Longrightarrow> set ids \<inter> set s = {} \<Longrightarrow>
   fst (BatchQueryInitLoop s ids) = OK \<and> set (snd (BatchQueryInitLoop s ids)) = set s \<union> set ids
   \<and> (sorted s \<longrightarrow> distinct s \<longrightarrow>
        sorted (snd (BatchQueryInitLoop s ids)) \<and> distinct (snd (BatchQueryInitLoop s ids)))"
proof (induction ids arbitrary: s)
  case Nil
  then show ?case by simp
next
  case (Cons i ids)
  from Cons.prems have a: "\<not> list_ex (\<lambda>i. i \<le> 0) ids" "distinct ids"
    "set ids \<inter> set (insort i s) = {}" and i: "\<not> i \<le> 0" "i \<notin> set s"
    by (auto simp: set_insort_key)
  from Cons.IH [OF a] i show ?case
    by (auto simp: sorted_insort distinct_insort set_insort_key)
qed

lemma UpsertInitLoop_rejects:
  "\<not> distinct (map id vs) \<or> id ` set vs \<inter> fst ` set m \<noteq> {} \<Longrightarrow>
   IsInvalidArgument (fst (UpsertInitLoop m i vs))"
proof (induction vs arbitrary: m i)
  case Nil
  then show ?case by simp
next
  case (Cons v vs)
  show ?case
  proof (cases "map_of m (id v)")
    case (Some j)
    then show ?thesis by simp
  next
    case None
    then have "id v \<notin> fst ` set m" by (simp add: map_of_eq_None_iff)
    with Cons.prems
    have "\<not> distinct (map id vs) \<or> id ` set vs \<inter> fst ` set (m @ [(id v, i)]) \<noteq> {}"
      by auto
    from Cons.IH [OF this] None show ?thesis by simp
  qed
qed

lemma UpsertInitLoop_accepts:
  "distinct (map id vs) \<Longrightarrow> id ` set vs \<inter> fst ` set m = {} \<Longrightarrow>
   UpsertInitLoop m i vs = (OK, m @ zip (map id vs) [i ..< i + length vs])"
proof (induction vs arbitrary: m i)
  case Nil
  then show ?case by simp
next
  case (Cons v vs)
  from Cons.prems have none: "map_of m (id v) = None"
    by (auto simp: map_of_eq_None_iff)
  from Cons.prems have "distinct (map id vs)" "id ` set vs \<inter> fst ` set (m @ [(id v, i)]) = {}"
    by auto
  from Cons.IH [OF this, of "Suc i"] none show ?case
    by (simp add: upt_conv_Cons del: upt_Suc)
qed




subsection \<open>Maps of vectors and the merge loops\<close>

lemma entries_at_append_at:
  "entries_at q (append_at k vs m) = entries_at q m @ (if q = k then vs else [])"
proof (induction m)
  case Nil
  then show ?case by (simp add: entries_at_def)
next
  case (Cons kv m)
  obtain k' xs where kv: "kv = (k', xs)" by (cases kv)
  show ?case
  proof (cases "k = k'")
    case True
    then show ?thesis by (simp add: kv entries_at_def)
  next
    case False
    then show ?thesis using Cons.IH by (cases "q = k") (simp_all add: kv entries_at_def)
  qed
qed

lemma keys_append_at: "set (map fst (append_at k vs m)) = insert k (set (map fst m))"
proof (induction m)
  case Nil
  then show ?case by simp
next
  case (Cons kv m)
  obtain k' xs where kv: "kv = (k', xs)" by (cases kv)
  show ?case
  proof (cases "k = k'")
    case True
    then show ?thesis by (simp add: kv)
  next
    case False
    then show ?thesis using Cons.IH by (simp add: kv insert_commute)
  qed
qed

lemma distinct_append_at:
  "distinct (map fst m) \<Longrightarrow> distinct (map fst (append_at k vs m))"
proof (induction m)
  case Nil
  then show ?case by simp
next
  case (Cons kv m)
  obtain k' xs where kv: "kv = (k', xs)" by (cases kv)
  show ?case
  proof (cases "k = k'")
    case True
    with Cons.prems show ?thesis by (simp add: kv)
  next
    case False
    with Cons keys_append_at [of k vs m] show ?thesis by (simp add: kv)
  qed
qed


lemma MergeCandidates_Some:
  "MergeCandidates tu i b sr =
     (case push_back_each (InternalVectorWithDistance2VectorWithDistance tu) b of
        None \<Rightarrow> None
      | Some ds \<Rightarrow> Some (fold (push_back_at i) ds sr))"
  by (induction b arbitrary: sr) (auto split: option.splits)

lemma entries_at_fold_push_back:
  "entries_at q (fold (push_back_at i) ds sr) = entries_at q sr @ (if q = i then ds else [])"
  by (induction ds arbitrary: sr) (auto simp: push_back_at_def entries_at_append_at)


lemma distinct_fold_push_back:
  "distinct (map fst sr) \<Longrightarrow> distinct (map fst (fold (push_back_at i) ds sr))"
  by (induction ds arbitrary: sr) (auto simp: push_back_at_def distinct_append_at)

lemma MergeBatchResults_entries:
  "push_back_each (push_back_each (InternalVectorWithDistance2VectorWithDistance tu)) bs = Some dss
   \<Longrightarrow> \<exists>sr'. MergeBatchResults tu i bs sr = Some sr'
        \<and> (\<forall>q. entries_at q sr' =
                 entries_at q sr @ (if i \<le> q \<and> q < i + length dss then dss ! (q - i) else []))
        \<and> (distinct (map fst sr) \<longrightarrow> distinct (map fst sr'))"
proof (induction bs arbitrary: i sr dss)
  case Nil
  then show ?case by auto
next
  case (Cons b bs)
  from Cons.prems obtain ds dss' where
    ds: "push_back_each (InternalVectorWithDistance2VectorWithDistance tu) b = Some ds"
    and dss': "push_back_each (push_back_each (InternalVectorWithDistance2VectorWithDistance tu)) bs
           = Some dss'"
    and dss: "dss = ds # dss'"
    by (auto split: option.splits)
  let ?sr1 = "fold (push_back_at i) ds sr"
  from Cons.IH [OF dss', of "Suc i" ?sr1] obtain sr' where
    m: "MergeBatchResults tu (Suc i) bs ?sr1 = Some sr'"
    and e': "\<forall>q. entries_at q sr' =
          entries_at q ?sr1 @ (if Suc i \<le> q \<and> q < Suc i + length dss' then dss' ! (q - Suc i) else [])"
    and d: "distinct (map fst ?sr1) \<longrightarrow> distinct (map fst sr')"
    by (elim exE conjE)
  from e' have e: "entries_at q sr' =
          entries_at q ?sr1 @ (if Suc i \<le> q \<and> q < Suc i + length dss' then dss' ! (q - Suc i) else [])"
    for q by (rule spec)
  have A: "MergeBatchResults tu i (b # bs) sr = Some sr'"
    using m ds by (simp add: MergeCandidates_Some)
  have B: "entries_at q sr' =
        entries_at q sr @ (if i \<le> q \<and> q < i + length dss then dss ! (q - i) else [])" for q
  proof (cases "q = i")
    case True
    then show ?thesis by (simp add: e entries_at_fold_push_back dss)
  next
    case False
    show ?thesis
    proof (cases "i < q")
      case True
      then obtain j where j: "q = Suc (i + j)" using less_imp_Suc_add by blast
      show ?thesis by (simp add: e entries_at_fold_push_back dss j)
    next
      case False
      with \<open>q \<noteq> i\<close> have "q < i" by simp
      then show ?thesis by (simp add: e entries_at_fold_push_back)
    qed
  qed
  have C: "distinct (map fst sr) \<longrightarrow> distinct (map fst sr')"
    using d distinct_fold_push_back [of sr i ds] by simp
  from B have B': "\<forall>q. entries_at q sr' =
        entries_at q sr @ (if i \<le> q \<and> q < i + length dss then dss ! (q - i) else [])"
    by (rule allI)
  show ?case
    by (intro exI [of _ sr'] conjI) (rule A, rule B', rule C)
qed


subsection \<open>DoAsync with nothing pending\<close>

text \<open>
  Claim C10. When the pending set of a task is empty as \<^verbatim>\<open>DoAsync\<close> runs (no partition id
  for the search, no vector id for the upsert, no document id for the batch query),
  \<^verbatim>\<open>DoAsync\<close> sets the status to OK, hands OK to \<^verbatim>\<open>DoAsyncDone\<close> and changes nothing else:
  no RPC is built or called and the result is what it was, empty for a new task. A batch
  query constructed with an empty id list passes \<^verbatim>\<open>Init\<close> when the index lookup succeeds,
  and \<^verbatim>\<open>DoAsync\<close> then completes it with OK, no call and no document.
\<close>

theorem DoAsync_nothing_pending:
  "(search_next_part_ids s = [] \<longrightarrow>
      VectorSearchTask_DoAsync s = s\<lparr> search_status := OK, search_done := search_done s @ [OK] \<rparr>)
   \<and> (upsert_vector_id_to_idx u = [] \<longrightarrow>
      VectorUpsertTask_DoAsync tu lookup u
        = Some (u\<lparr> upsert_status := OK, upsert_done := upsert_done u @ [OK] \<rparr>))
   \<and> (query_pending_doc_ids q = [] \<longrightarrow>
      DocumentBatchQueryTask_DoAsync lookup q
        = Some (q\<lparr> query_status := OK, query_done := query_done q @ [OK] \<rparr>))
   \<and> (ok index_lookup \<longrightarrow>
      (\<exists>q0 q1. DocumentBatchQueryTask_Init index_lookup (DocumentBatchQueryTask_new [] w ks)
                 = (OK, q0)
         \<and> DocumentBatchQueryTask_DoAsync lookup q0 = Some q1
         \<and> query_status q1 = OK \<and> query_done q1 = [OK] \<and> query_calls q1 = []
         \<and> query_rpcs q1 = [] \<and> query_out_docs q1 = []))"
  by (simp add: VectorSearchTask_DoAsync_def VectorUpsertTask_DoAsync_def
      DocumentBatchQueryTask_DoAsync_def DocumentBatchQueryTask_Init_def
      DocumentBatchQueryTask_new_def Let_def)

theorem DoAsync_nothing_pending_witness:
  "search_next_part_ids
     (VectorSearchTask_ready [VectorWithId_example] SearchParam_example
        VectorSearchParameter_default []) = []
   \<and> search_done (VectorSearchTask_DoAsync
        (VectorSearchTask_ready [VectorWithId_example] SearchParam_example
           VectorSearchParameter_default [])) = [OK]
   \<and> search_sub_tasks (VectorSearchTask_DoAsync
        (VectorSearchTask_ready [VectorWithId_example] SearchParam_example
           VectorSearchParameter_default [])) = []
   \<and> search_out_result (VectorSearchTask_DoAsync
        (VectorSearchTask_ready [VectorWithId_example] SearchParam_example
           VectorSearchParameter_default [])) = []
   \<and> upsert_vector_id_to_idx (VectorUpsertTask_new []) = []
   \<and> VectorUpsertTask_DoAsync TypesUtil_example (\<lambda>i. Inl (Failed (EOther 1) []))
        (VectorUpsertTask_new [])
      = Some ((VectorUpsertTask_new [])\<lparr> upsert_done := [OK] \<rparr>)
   \<and> ok OK
   \<and> (\<exists>q1. DocumentBatchQueryTask_DoAsync (\<lambda>i. Inl (Failed (EOther 1) []))
              (DocumentBatchQueryTask_new [] False [] :: unit DocumentBatchQueryTask) = Some q1
          \<and> query_done q1 = [OK] \<and> query_calls q1 = [] \<and> query_out_docs q1 = [])"
proof -
  let ?s = "VectorSearchTask_ready [VectorWithId_example] SearchParam_example
              VectorSearchParameter_default []"
  let ?u = "VectorUpsertTask_new []"
  let ?q = "DocumentBatchQueryTask_new [] False [] :: unit DocumentBatchQueryTask"
  let ?l = "\<lambda>i::int. Inl (Failed (EOther 1) []) :: Status + Region"
  have s: "search_next_part_ids ?s = []" by (simp add: VectorSearchTask_ready_def)
  have u: "upsert_vector_id_to_idx ?u = []" by (simp add: VectorUpsertTask_new_def)
  have q: "query_pending_doc_ids ?q = []" by (simp add: DocumentBatchQueryTask_new_def)
  have k: "ok OK" by simp
  note th = DoAsync_nothing_pending [of ?s ?u TypesUtil_example ?l ?q OK False "[]"]
  from th s have 1: "VectorSearchTask_DoAsync ?s
      = ?s\<lparr> search_status := OK, search_done := search_done ?s @ [OK] \<rparr>" by blast
  from th u have 2: "VectorUpsertTask_DoAsync TypesUtil_example ?l ?u
      = Some (?u\<lparr> upsert_status := OK, upsert_done := upsert_done ?u @ [OK] \<rparr>)" by blast
  from th q have 3: "DocumentBatchQueryTask_DoAsync ?l ?q
      = Some (?q\<lparr> query_status := OK, query_done := query_done ?q @ [OK] \<rparr>)" by blast
  show ?thesis
    unfolding 1 2 3
    by (simp add: VectorSearchTask_ready_def VectorUpsertTask_new_def
        DocumentBatchQueryTask_new_def)
qed

subsection \<open>Responses whose size differs from the request\<close>






subsection \<open>Runs of callbacks: the latched status and the completion\<close>

lemma ok_iff: "ok s = (s = OK)"
  by (cases s) simp_all

paragraph \<open>Upsert\<close>







paragraph \<open>Batch query\<close>





paragraph \<open>Search, top task\<close>








paragraph \<open>Search, part task\<close>



lemma MergeBatchResults_exists:
  "DecodeBatches tu rs \<noteq> None \<Longrightarrow> \<exists>sr'. MergeBatchResults tu 0 (pb_batch_results rs) sr = Some sr'"
proof -
  assume "DecodeBatches tu rs \<noteq> None"
  then obtain dss where dss: "DecodeBatches tu rs = Some dss" by (cases "DecodeBatches tu rs") auto
  from MergeBatchResults_entries [OF dss [unfolded DecodeBatches_def], of 0 sr]
  show ?thesis by (elim exE conjE) (rule exI)
qed


lemma VectorSearchRpcMerge_exists:
  "ok s \<longrightarrow> DecodeBatches tu rs \<noteq> None \<Longrightarrow> \<exists>t1. VectorSearchRpcMerge tu s rq rs t = Some t1"
proof (cases "ok s")
  case True
  assume "ok s \<longrightarrow> DecodeBatches tu rs \<noteq> None"
  with True have "DecodeBatches tu rs \<noteq> None" by simp
  from MergeBatchResults_exists [OF this, of "part_search_result t"] True
  show ?thesis by (auto simp: VectorSearchRpcMerge_def)
next
  case False
  then show ?thesis by (simp add: VectorSearchRpcMerge_def)
qed








lemma NodataRegionRpcCallback_exists:
  "ok s \<longrightarrow> DecodeBatches tu rs \<noteq> None \<Longrightarrow> \<exists>t'. NodataRegionRpcCallback tu s rq rs t = Some t'"
proof (cases "ok s")
  case True
  assume "ok s \<longrightarrow> DecodeBatches tu rs \<noteq> None"
  with True have "DecodeBatches tu rs \<noteq> None" by simp
  from MergeBatchResults_exists [OF this, of "part_search_result t"] True
  show ?thesis by (auto simp: NodataRegionRpcCallback_def NodataRegionRpcMerge_def Let_def)
next
  case False
  then show ?thesis by (simp add: NodataRegionRpcCallback_def NodataRegionRpcMerge_def Let_def)
qed


subsection \<open>The latched status\<close>


lemmas example_defs =
  Status_E1_def Status_E2_def Status_NoData_def is_no_data_def

lemma upsert_example_run:
  "VectorUpsertTask_callbacks
     [(Status_E1, VectorAddRequest_example 10 [1]), (Status_E2, VectorAddRequest_example 20 [3])]
     VectorUpsertTask_example
   = VectorUpsertTask_example\<lparr> upsert_status := Status_E1, upsert_sub_tasks_count := 0,
       upsert_done := [Status_E1] \<rparr>"
  by (simp add: VectorAddRpcCallback_def VectorAddRpcMerge_def VectorUpsertTask_example_def
      VectorUpsertTask_new_def example_defs Let_def)








subsection \<open>The result of the top search task\<close>

























subsection \<open>Results of a task that fails\<close>





subsection \<open>Grouping ids by region\<close>

lemma mset_concat_append_at:
  "mset (concat (map snd (append_at k vs m))) = mset (concat (map snd m)) + mset vs"
proof (induction m)
  case Nil
  then show ?case by simp
next
  case (Cons kv m)
  obtain k' xs where kv: "kv = (k', xs)" by (cases kv)
  show ?case
  proof (cases "k = k'")
    case True
    then show ?thesis by (simp add: kv)
  next
    case False
    then show ?thesis using Cons.IH by (simp add: kv)
  qed
qed

lemma append_at_members:
  "(k', xs) \<in> set (append_at k vs m) \<Longrightarrow>
   (\<exists>ys. (k', ys) \<in> set m \<and> (xs = ys \<or> (k' = k \<and> xs = ys @ vs))) \<or> (k' = k \<and> xs = vs)"
proof (induction m)
  case Nil
  then show ?case by simp
next
  case (Cons kv m)
  obtain k0 x0 where kv: "kv = (k0, x0)" by (cases kv)
  show ?case
  proof (cases "k = k0")
    case True
    with Cons.prems kv show ?thesis by auto
  next
    case False
    with Cons.prems kv have "(k', xs) = (k0, x0) \<or> (k', xs) \<in> set (append_at k vs m)"
      by simp
    then show ?thesis
    proof
      assume "(k', xs) = (k0, x0)"
      then show ?thesis by (auto simp: kv)
    next
      assume "(k', xs) \<in> set (append_at k vs m)"
      from Cons.IH [OF this] show ?thesis by (auto simp: kv)
    qed
  qed
qed

lemma keys_map_insert: "fst ` set (map_insert k v m) = insert k (fst ` set m)"
proof (cases "map_of m k")
  case None
  then show ?thesis by (simp add: map_insert_def)
next
  case (Some w)
  then have "(k, w) \<in> set m" by (rule map_of_SomeD)
  then have "k \<in> fst ` set m" by (rule image_eqI [rotated]) simp
  with Some show ?thesis by (auto simp: map_insert_def)
qed

lemma routed_append_at:
  "routed lookup G \<Longrightarrow> lookup i = Inr r \<Longrightarrow> routed lookup (append_at (RegionId r) [i] G)"
  unfolding routed_def
proof (intro ballI)
  fix kv j
  assume G: "\<forall>kv \<in> set G. \<forall>i \<in> set (snd kv). \<exists>r. lookup i = Inr r \<and> RegionId r = fst kv"
    and l: "lookup i = Inr r"
    and kv: "kv \<in> set (append_at (RegionId r) [i] G)" and j: "j \<in> set (snd kv)"
  obtain k' xs where p: "kv = (k', xs)" by (cases kv)
  from append_at_members [OF kv [unfolded p]]
  have "(\<exists>ys. (k', ys) \<in> set G \<and> (xs = ys \<or> (k' = RegionId r \<and> xs = ys @ [i])))
        \<or> (k' = RegionId r \<and> xs = [i])" .
  then show "\<exists>r. lookup j = Inr r \<and> RegionId r = fst kv"
  proof
    assume "\<exists>ys. (k', ys) \<in> set G \<and> (xs = ys \<or> (k' = RegionId r \<and> xs = ys @ [i]))"
    then obtain ys where ys: "(k', ys) \<in> set G"
      and c: "xs = ys \<or> (k' = RegionId r \<and> xs = ys @ [i])" by blast
    from G ys have g: "\<forall>i \<in> set ys. \<exists>r. lookup i = Inr r \<and> RegionId r = k'" by force
    from c show ?thesis
    proof
      assume "xs = ys"
      with g j p show ?thesis by simp
    next
      assume "k' = RegionId r \<and> xs = ys @ [i]"
      with g j p l show ?thesis by auto
    qed
  next
    assume "k' = RegionId r \<and> xs = [i]"
    with j p l show ?thesis by simp
  qed
qed

lemma GroupByRegion_Inr:
  assumes "GroupByRegion lookup ids R0 G0 = Inr (R, G)"
  shows "mset (concat (map snd G)) = mset (concat (map snd G0)) + mset ids"
    and "distinct (map fst G0) \<Longrightarrow> distinct (map fst G)"
    and "fst ` set G0 \<subseteq> fst ` set R0 \<Longrightarrow> fst ` set G \<subseteq> fst ` set R"
    and "routed lookup G0 \<Longrightarrow> routed lookup G"
  using assms
proof (induction ids arbitrary: R0 G0)
  case Nil
  { case 1 then show ?case by simp }
  { case 2 then show ?case by simp }
  { case 3 then show ?case by simp }
  { case 4 then show ?case by simp }
next
  case (Cons i ids)
  { case 1
    then obtain r where l: "lookup i = Inr r"
      and g: "GroupByRegion lookup ids (map_insert (RegionId r) r R0)
                (push_back_at (RegionId r) i G0) = Inr (R, G)"
      by (auto split: sum.splits)
    from Cons.IH(1) [OF g] show ?case
      by (simp add: push_back_at_def mset_concat_append_at) }
  { case 2
    then obtain r where l: "lookup i = Inr r"
      and g: "GroupByRegion lookup ids (map_insert (RegionId r) r R0)
                (push_back_at (RegionId r) i G0) = Inr (R, G)"
      by (auto split: sum.splits)
    from 2(1) have "distinct (map fst (push_back_at (RegionId r) i G0))"
      by (simp add: push_back_at_def distinct_append_at)
    from Cons.IH(2) [OF this g] show ?case . }
  { case 3
    then obtain r where l: "lookup i = Inr r"
      and g: "GroupByRegion lookup ids (map_insert (RegionId r) r R0)
                (push_back_at (RegionId r) i G0) = Inr (R, G)"
      by (auto split: sum.splits)
    have "fst ` set (push_back_at (RegionId r) i G0) = insert (RegionId r) (fst ` set G0)"
      using keys_append_at [of "RegionId r" "[i]" G0] by (simp add: push_back_at_def)
    with 3(1) have "fst ` set (push_back_at (RegionId r) i G0)
        \<subseteq> fst ` set (map_insert (RegionId r) r R0)"
      by (auto simp: keys_map_insert)
    from Cons.IH(3) [OF this g] show ?case . }
  { case 4
    then obtain r where l: "lookup i = Inr r"
      and g: "GroupByRegion lookup ids (map_insert (RegionId r) r R0)
                (push_back_at (RegionId r) i G0) = Inr (R, G)"
      by (auto split: sum.splits)
    from routed_append_at [OF 4(1) l]
    have "routed lookup (push_back_at (RegionId r) i G0)" by (simp add: push_back_at_def)
    from Cons.IH(4) [OF this g] show ?case . }
qed

lemma GroupByRegion_exists:
  "\<forall>i \<in> set ids. \<exists>r. lookup i = Inr r \<Longrightarrow> \<exists>R G. GroupByRegion lookup ids R0 G0 = Inr (R, G)"
proof (induction ids arbitrary: R0 G0)
  case Nil
  then show ?case by simp
next
  case (Cons i ids)
  from Cons.prems obtain r where l: "lookup i = Inr r" by auto
  from Cons.prems have "\<forall>i \<in> set ids. \<exists>r. lookup i = Inr r" by simp
  from Cons.IH [OF this] l show ?case by simp
qed

lemma disjoint_groups:
  "distinct (concat xss) \<Longrightarrow> i < j \<Longrightarrow> j < length xss \<Longrightarrow> set (xss ! i) \<inter> set (xss ! j) = {}"
proof (induction xss arbitrary: i j)
  case Nil
  then show ?case by simp
next
  case (Cons xs xss)
  from Cons.prems(2) obtain j' where j: "j = Suc j'" by (cases j) auto
  show ?case
  proof (cases i)
    case 0
    from Cons.prems(3) j have "xss ! j' \<in> set xss" by simp
    with Cons.prems(1) have "set xs \<inter> set (xss ! j') = {}" by auto
    with 0 j show ?thesis by simp
  next
    case (Suc i')
    with Cons.prems j have "distinct (concat xss)" "i' < j'" "j' < length xss" by auto
    from Cons.IH [OF this] Suc j show ?thesis by simp
  qed
qed



subsection \<open>The RPCs planned by DoAsync\<close>

lemma not_InvalidArgument_OK: "IsInvalidArgument s \<Longrightarrow> s \<noteq> OK"
  by (cases s) simp_all

lemma upsert_Init_OK:
  assumes "VectorUpsertTask_Init il (VectorUpsertTask_new vs) = (OK, u)"
  shows "vs \<noteq> []" and "distinct (map id vs)"
    and "u = (VectorUpsertTask_new vs)\<lparr>
               upsert_vector_id_to_idx := zip (map id vs) [0 ..< length vs] \<rparr>"
proof -
  let ?t = "VectorUpsertTask_new vs"
  have uv: "upsert_vectors ?t = vs" by (simp add: VectorUpsertTask_new_def)
  from assms show ne: "vs \<noteq> []"
    by (auto simp: VectorUpsertTask_Init_def uv split: if_splits)
  from assms ne have okil: "ok il" and pos: "\<not> list_ex (\<lambda>v. id v \<le> 0) vs"
    and loop: "fst (UpsertInitLoop [] 0 vs) = OK"
    and u: "u = ?t\<lparr> upsert_vector_id_to_idx := snd (UpsertInitLoop [] 0 vs) \<rparr>"
    by (auto simp: VectorUpsertTask_Init_def uv ok_iff split: if_splits prod.splits)
  show d: "distinct (map id vs)"
  proof (rule ccontr)
    assume "\<not> distinct (map id vs)"
    then have "IsInvalidArgument (fst (UpsertInitLoop [] 0 vs))"
      by (intro UpsertInitLoop_rejects) simp
    with loop show False using not_InvalidArgument_OK by blast
  qed
  from UpsertInitLoop_accepts [OF d, of "[]" 0] u
  show "u = ?t\<lparr> upsert_vector_id_to_idx := zip (map id vs) [0 ..< length vs] \<rparr>"
    by simp
qed

lemma query_Init_OK:
  assumes "DocumentBatchQueryTask_Init il (DocumentBatchQueryTask_new ids w ks) = (OK, d)"
  shows "distinct ids" and "set (query_pending_doc_ids d) = set ids"
    and "distinct (query_pending_doc_ids d)"
    and "d = (DocumentBatchQueryTask_new ids w ks)\<lparr>
               query_pending_doc_ids := query_pending_doc_ids d \<rparr>"
proof -
  let ?t = "DocumentBatchQueryTask_new ids w ks :: 'a DocumentBatchQueryTask"
  have f: "query_pending_doc_ids ?t = []" "query_doc_ids ?t = ids"
    by (simp_all add: DocumentBatchQueryTask_new_def)
  from assms have loop: "fst (BatchQueryInitLoop [] ids) = OK"
    and p: "query_pending_doc_ids d = snd (BatchQueryInitLoop [] ids)"
    and d: "d = ?t\<lparr> query_pending_doc_ids := snd (BatchQueryInitLoop [] ids) \<rparr>"
    by (auto simp: DocumentBatchQueryTask_Init_def f Let_def ok_iff
        split: prod.splits if_splits)
  have ok: "\<not> list_ex (\<lambda>i. i \<le> 0) ids \<and> distinct ids"
  proof (rule ccontr)
    assume "\<not> (\<not> list_ex (\<lambda>i. i \<le> 0) ids \<and> distinct ids)"
    then have "IsInvalidArgument (fst (BatchQueryInitLoop [] ids))"
      by (intro BatchQueryInitLoop_rejects) auto
    with loop show False using not_InvalidArgument_OK by blast
  qed
  then show "distinct ids" by simp
  from ok BatchQueryInitLoop_accepts [of ids "[]"]
  have "set (snd (BatchQueryInitLoop [] ids)) = set ids"
    "distinct (snd (BatchQueryInitLoop [] ids))"
    by simp_all
  then show "set (query_pending_doc_ids d) = set ids" "distinct (query_pending_doc_ids d)"
    by (simp_all add: p)
  from d p show "d = ?t\<lparr> query_pending_doc_ids := query_pending_doc_ids d \<rparr>" by simp
qed

lemma BuildQueryRpcs:
  "fst ` set G \<subseteq> fst ` set R \<Longrightarrow>
   \<exists>crs. push_back_each (BuildQueryRpc t R) G = Some crs
     \<and> map (\<lambda>c. pb_document_ids (fst c)) crs = map snd G
     \<and> map (\<lambda>c. pb_region_id (pb_query_context (fst c))) crs = map fst G"
proof (induction G)
  case Nil
  then show ?case by simp
next
  case (Cons e G)
  from Cons.prems have "fst e \<in> fst ` set R" and sub: "fst ` set G \<subseteq> fst ` set R" by auto
  then obtain region where r: "map_of R (fst e) = Some region"
    by (cases "map_of R (fst e)") (auto simp: map_of_eq_None_iff)
  from Cons.IH [OF sub] obtain crs where
    "push_back_each (BuildQueryRpc t R) G = Some crs"
    "map (\<lambda>c. pb_document_ids (fst c)) crs = map snd G"
    "map (\<lambda>c. pb_region_id (pb_query_context (fst c))) crs = map fst G"
    by (elim exE conjE)
  moreover from r obtain rq where "BuildQueryRpc t R e = Some (rq, region)"
    "pb_document_ids rq = snd e" "pb_region_id (pb_query_context rq) = fst e"
    by (simp add: BuildQueryRpc_def FillRpcContext_def)
  ultimately show ?case by simp
qed

lemma FillVectorWithIdPB_id:
  "FillVectorWithIdPB tu pb0 v True = Some pb \<Longrightarrow> pb_id pb = id v"
  by (auto simp: FillVectorWithIdPB_def Let_def split: option.splits)

lemma UpsertVectorPBs:
  assumes "\<forall>i \<in> set ids. \<exists>j. map_of (upsert_vector_id_to_idx t) i = Some j
              \<and> j < length (upsert_vectors t) \<and> id (upsert_vectors t ! j) = i"
  shows "push_back_each (UpsertVectorPB tu t) ids = Some vs \<Longrightarrow> map pb_id vs = ids"
    and "\<forall>v \<in> set (upsert_vectors t). FillVectorWithIdPB tu VectorWithIdPB_default v True \<noteq> None
         \<Longrightarrow> \<exists>vs. push_back_each (UpsertVectorPB tu t) ids = Some vs"
proof -
  have one: "\<exists>j. j < length (upsert_vectors t) \<and> id (upsert_vectors t ! j) = i
       \<and> UpsertVectorPB tu t i
           = FillVectorWithIdPB tu VectorWithIdPB_default (upsert_vectors t ! j) True"
    if "i \<in> set ids" for i
  proof -
    from assms that obtain j where "map_of (upsert_vector_id_to_idx t) i = Some j"
      "j < length (upsert_vectors t)" "id (upsert_vectors t ! j) = i" by blast
    then show ?thesis by (intro exI [of _ j]) (simp add: UpsertVectorPB_def)
  qed
  show "push_back_each (UpsertVectorPB tu t) ids = Some vs \<Longrightarrow> map pb_id vs = ids"
    using one
  proof (induction ids arbitrary: vs)
    case Nil
    then show ?case by simp
  next
    case (Cons i ids)
    from Cons.prems(1) obtain pb vs' where
      pb: "UpsertVectorPB tu t i = Some pb"
      and r: "push_back_each (UpsertVectorPB tu t) ids = Some vs'" and vs: "vs = pb # vs'"
      by (auto split: option.splits)
    from Cons.prems(2) [of i] pb have "pb_id pb = i"
      using FillVectorWithIdPB_id by fastforce
    moreover from Cons.IH [OF r] Cons.prems(2) have "map pb_id vs' = ids" by simp
    ultimately show ?case by (simp add: vs)
  qed
  show "\<exists>vs. push_back_each (UpsertVectorPB tu t) ids = Some vs"
    if enc: "\<forall>v \<in> set (upsert_vectors t).
               FillVectorWithIdPB tu VectorWithIdPB_default v True \<noteq> None"
    using one
  proof (induction ids)
    case Nil
    then show ?case by simp
  next
    case (Cons i ids)
    from Cons.prems [of i] obtain j where j: "j < length (upsert_vectors t)"
      and u: "UpsertVectorPB tu t i
           = FillVectorWithIdPB tu VectorWithIdPB_default (upsert_vectors t ! j) True"
      by auto
    from j enc have "FillVectorWithIdPB tu VectorWithIdPB_default (upsert_vectors t ! j) True
        \<noteq> None" by simp
    with u obtain pb where pb: "UpsertVectorPB tu t i = Some pb" by auto
    from Cons.IH Cons.prems obtain vs where
      "push_back_each (UpsertVectorPB tu t) ids = Some vs" by auto
    with pb show ?case by simp
  qed
qed

lemma BuildAddRpcs_Some:
  assumes "push_back_each (BuildAddRpc tu t R) G = Some crs"
    and "\<forall>i \<in> set (concat (map snd G)). \<exists>j. map_of (upsert_vector_id_to_idx t) i = Some j
              \<and> j < length (upsert_vectors t) \<and> id (upsert_vectors t ! j) = i"
  shows "map (\<lambda>c. map pb_id (pb_vectors (fst c))) crs = map snd G
     \<and> map (\<lambda>c. pb_region_id (pb_add_context (fst c))) crs = map fst G
     \<and> (\<forall>c \<in> set crs. pb_is_update (fst c))"
  using assms
proof (induction G arbitrary: crs)
  case Nil
  then show ?case by simp
next
  case (Cons e G)
  from Cons.prems(1) obtain c crs' where c: "BuildAddRpc tu t R e = Some c"
    and rest: "push_back_each (BuildAddRpc tu t R) G = Some crs'"
    and crs: "crs = c # crs'"
    by (auto split: option.splits)
  from c obtain region vs where
    v: "push_back_each (UpsertVectorPB tu t) (snd e) = Some vs"
    and c': "c = (\<lparr> pb_add_context = FillRpcContext (fst e) (Epoch region),
                    pb_is_update = True, pb_vectors = vs \<rparr>, region)"
    by (auto simp: BuildAddRpc_def split: option.splits)
  from Cons.prems(2) have a: "\<forall>i \<in> set (snd e). \<exists>j. map_of (upsert_vector_id_to_idx t) i = Some j
              \<and> j < length (upsert_vectors t) \<and> id (upsert_vectors t ! j) = i"
    and b: "\<forall>i \<in> set (concat (map snd G)). \<exists>j. map_of (upsert_vector_id_to_idx t) i = Some j
              \<and> j < length (upsert_vectors t) \<and> id (upsert_vectors t ! j) = i"
    by auto
  from UpsertVectorPBs(1) [OF a v] have "map pb_id vs = snd e" .
  with Cons.IH [OF rest b] show ?case
    by (simp add: crs c' FillRpcContext_def)
qed

lemma BuildAddRpcs_exists:
  assumes "fst ` set G \<subseteq> fst ` set R"
    and "\<forall>i \<in> set (concat (map snd G)). \<exists>j. map_of (upsert_vector_id_to_idx t) i = Some j
              \<and> j < length (upsert_vectors t) \<and> id (upsert_vectors t ! j) = i"
    and "\<forall>v \<in> set (upsert_vectors t). FillVectorWithIdPB tu VectorWithIdPB_default v True \<noteq> None"
  shows "\<exists>crs. push_back_each (BuildAddRpc tu t R) G = Some crs"
  using assms(1,2)
proof (induction G)
  case Nil
  then show ?case by simp
next
  case (Cons e G)
  from Cons.prems(1) have "fst e \<in> fst ` set R" and sub: "fst ` set G \<subseteq> fst ` set R" by auto
  then obtain region where r: "map_of R (fst e) = Some region"
    by (cases "map_of R (fst e)") (auto simp: map_of_eq_None_iff)
  from Cons.prems(2) have a: "\<forall>i \<in> set (snd e). \<exists>j. map_of (upsert_vector_id_to_idx t) i = Some j
              \<and> j < length (upsert_vectors t) \<and> id (upsert_vectors t ! j) = i"
    and b: "\<forall>i \<in> set (concat (map snd G)). \<exists>j. map_of (upsert_vector_id_to_idx t) i = Some j
              \<and> j < length (upsert_vectors t) \<and> id (upsert_vectors t ! j) = i"
    by auto
  from UpsertVectorPBs(2) [OF a assms(3)] obtain vs where
    "push_back_each (UpsertVectorPB tu t) (snd e) = Some vs" by (elim exE)
  moreover from Cons.IH [OF sub b] obtain crs where
    "push_back_each (BuildAddRpc tu t R) G = Some crs" by (elim exE)
  moreover from r calculation(1) have "BuildAddRpc tu t R e \<noteq> None"
    by (simp add: BuildAddRpc_def)
  ultimately show ?case by auto
qed


lemma partition_of_mset:
  assumes "mset (concat xss) = mset ids" and "distinct ids"
  shows "(\<Union>xs \<in> set xss. set xs) = set ids"
    and "\<forall>i j. i < j \<and> j < length xss \<longrightarrow> set (xss ! i) \<inter> set (xss ! j) = {}"
proof -
  from assms(1) have "set (concat xss) = set ids" by (rule mset_eq_setD)
  then show "(\<Union>xs \<in> set xss. set xs) = set ids" by simp
  from assms have "distinct (concat xss)" using mset_eq_imp_distinct_iff by blast
  then show "\<forall>i j. i < j \<and> j < length xss \<longrightarrow> set (xss ! i) \<inter> set (xss ! j) = {}"
    using disjoint_groups by blast
qed

lemma upsert_DoAsync_partition:
  assumes init: "VectorUpsertTask_Init il (VectorUpsertTask_new vectors) = (OK, u)"
    and lk: "\<forall>v \<in> set vectors. \<exists>r. lookup (id v) = Inr r"
  shows "\<exists>R G. GroupByRegion lookup (map fst (upsert_vector_id_to_idx u)) [] [] = Inr (R, G)
      \<and> mset (concat (map snd G)) = mset (map id vectors)
      \<and> distinct (map id vectors)
      \<and> distinct (map fst G) \<and> routed lookup G
      \<and> ((\<forall>v \<in> set vectors. FillVectorWithIdPB tu VectorWithIdPB_default v True \<noteq> None)
           \<longrightarrow> (\<exists>u'. VectorUpsertTask_DoAsync tu lookup u = Some u'))
      \<and> (\<forall>u'. VectorUpsertTask_DoAsync tu lookup u = Some u' \<longrightarrow>
             map (\<lambda>rq. map pb_id (pb_vectors rq)) (upsert_rpcs u') = map snd G
           \<and> map (\<lambda>rq. pb_region_id (pb_add_context rq)) (upsert_rpcs u') = map fst G
           \<and> list_all pb_is_update (upsert_rpcs u')
           \<and> upsert_calls u' = upsert_rpcs u')"
proof -
  note I = upsert_Init_OK [OF init]
  let ?ids = "map id vectors"
  define t1 where "t1 = u\<lparr> upsert_status := OK \<rparr>"
  have m: "upsert_vector_id_to_idx u = zip ?ids [0 ..< length vectors]"
    and uv: "upsert_vectors u = vectors" and uc: "upsert_calls u = []"
    by (subst I(3), simp add: VectorUpsertTask_new_def)+
  have keys: "map fst (upsert_vector_id_to_idx u) = ?ids" by (simp add: m)
  from I(1) have ne: "upsert_vector_id_to_idx u \<noteq> []" by (cases vectors) (simp_all add: m upt_conv_Cons del: upt_Suc)
  from lk have "\<forall>i \<in> set ?ids. \<exists>r. lookup i = Inr r" by simp
  from GroupByRegion_exists [OF this, of "[]" "[]"] obtain R G where
    g: "GroupByRegion lookup ?ids [] [] = Inr (R, G)" by (elim exE)
  note P = GroupByRegion_Inr [OF g]
  from P(1) have ms: "mset (concat (map snd G)) = mset ?ids" by simp
  from P(2) have dk: "distinct (map fst G)" by simp
  from P(3) have sub: "fst ` set G \<subseteq> fst ` set R" by simp
  from P(4) have rt: "routed lookup G" by (simp add: routed_def)
  from ms have st: "set (concat (map snd G)) = set ?ids" by (rule mset_eq_setD)
  have inv: "\<forall>i \<in> set (concat (map snd G)).
      \<exists>j. map_of (upsert_vector_id_to_idx t1) i = Some j
         \<and> j < length (upsert_vectors t1) \<and> id (upsert_vectors t1 ! j) = i"
  proof
    fix i assume "i \<in> set (concat (map snd G))"
    with st have "i \<in> set ?ids" by simp
    then obtain j where j: "j < length vectors" and i: "i = ?ids ! j"
      by (auto simp: in_set_conv_nth)
    from map_of_zip_nth [of ?ids "[0 ..< length vectors]" j] I(2) j
    have "map_of (zip ?ids [0 ..< length vectors]) (?ids ! j) = Some j" by simp
    with j i show "\<exists>j. map_of (upsert_vector_id_to_idx t1) i = Some j
         \<and> j < length (upsert_vectors t1) \<and> id (upsert_vectors t1 ! j) = i"
      by (intro exI [of _ j]) (simp add: t1_def m uv)
  qed
  have D: "VectorUpsertTask_DoAsync tu lookup u =
      (case push_back_each (BuildAddRpc tu t1 R) G of
         None \<Rightarrow> None
       | Some crs \<Rightarrow> Some (t1\<lparr> upsert_controllers := crs, upsert_rpcs := map fst crs,
                              upsert_sub_tasks_count := int (length G),
                              upsert_calls := upsert_calls t1 @ map fst crs \<rparr>))"
    unfolding VectorUpsertTask_DoAsync_def Let_def keys t1_def [symmetric]
    using ne g by simp
  have ex: "\<exists>u'. VectorUpsertTask_DoAsync tu lookup u = Some u'"
    if enc: "\<forall>v \<in> set vectors. FillVectorWithIdPB tu VectorWithIdPB_default v True \<noteq> None"
  proof -
    from enc have "\<forall>v \<in> set (upsert_vectors t1).
        FillVectorWithIdPB tu VectorWithIdPB_default v True \<noteq> None"
      by (simp add: t1_def uv)
    from BuildAddRpcs_exists [OF sub inv this] obtain crs where
      "push_back_each (BuildAddRpc tu t1 R) G = Some crs" by (elim exE)
    then show ?thesis by (simp add: D)
  qed
  have rpcs: "map (\<lambda>rq. map pb_id (pb_vectors rq)) (upsert_rpcs u') = map snd G
           \<and> map (\<lambda>rq. pb_region_id (pb_add_context rq)) (upsert_rpcs u') = map fst G
           \<and> list_all pb_is_update (upsert_rpcs u')
           \<and> upsert_calls u' = upsert_rpcs u'"
    if "VectorUpsertTask_DoAsync tu lookup u = Some u'" for u'
  proof -
    from that obtain crs where
      c: "push_back_each (BuildAddRpc tu t1 R) G = Some crs"
      and u': "u' = t1\<lparr> upsert_controllers := crs, upsert_rpcs := map fst crs,
                       upsert_sub_tasks_count := int (length G),
                       upsert_calls := upsert_calls t1 @ map fst crs \<rparr>"
      by (auto simp: D split: option.splits)
    from BuildAddRpcs_Some [OF c inv]
    have "map (\<lambda>c. map pb_id (pb_vectors (fst c))) crs = map snd G"
      "map (\<lambda>c. pb_region_id (pb_add_context (fst c))) crs = map fst G"
      "\<forall>c \<in> set crs. pb_is_update (fst c)"
      by simp_all
    then show ?thesis
      by (simp add: u' t1_def uc comp_def list_all_iff)
  qed
  from g keys have g': "GroupByRegion lookup (map fst (upsert_vector_id_to_idx u)) [] []
      = Inr (R, G)" by simp
  show ?thesis
    apply (intro exI [of _ R] exI [of _ G] conjI allI impI)
             apply (rule g')
            apply (rule ms)
           apply (rule I(2))
          apply (rule dk)
         apply (rule rt)
        apply (erule ex)
       apply (erule rpcs [THEN conjunct1])
      apply (erule rpcs [THEN conjunct2, THEN conjunct1])
     apply (erule rpcs [THEN conjunct2, THEN conjunct2, THEN conjunct1])
    apply (erule rpcs [THEN conjunct2, THEN conjunct2, THEN conjunct2])
    done
qed

lemma query_DoAsync_partition:
  assumes init: "DocumentBatchQueryTask_Init il (DocumentBatchQueryTask_new doc_ids w ks)
                   = (OK, d)"
    and lk: "\<forall>i \<in> set doc_ids. \<exists>r. lookup i = Inr r"
  shows "\<exists>R G d'. GroupByRegion lookup (query_pending_doc_ids d) [] [] = Inr (R, G)
      \<and> mset (concat (map snd G)) = mset (query_pending_doc_ids d)
      \<and> distinct (query_pending_doc_ids d)
      \<and> set (query_pending_doc_ids d) = set doc_ids
      \<and> distinct (map fst G) \<and> routed lookup G
      \<and> DocumentBatchQueryTask_DoAsync lookup d = Some d'
      \<and> map pb_document_ids (query_rpcs d') = map snd G
      \<and> map (\<lambda>rq. pb_region_id (pb_query_context rq)) (query_rpcs d') = map fst G
      \<and> query_calls d' = query_rpcs d'"
proof -
  note I = query_Init_OK [OF init]
  let ?ids = "query_pending_doc_ids d"
  define t1 where "t1 = d\<lparr> query_status := OK \<rparr>"
  have qc: "query_calls d = []" "query_rpcs d = []"
    by (subst I(4), simp add: DocumentBatchQueryTask_new_def)+
  from lk I(2) have "\<forall>i \<in> set ?ids. \<exists>r. lookup i = Inr r" by simp
  from GroupByRegion_exists [OF this, of "[]" "[]"] obtain R G where
    g: "GroupByRegion lookup ?ids [] [] = Inr (R, G)" by (elim exE)
  note P = GroupByRegion_Inr [OF g]
  from P(1) have ms: "mset (concat (map snd G)) = mset ?ids" by simp
  from P(2) have dk: "distinct (map fst G)" by simp
  from P(3) have sub: "fst ` set G \<subseteq> fst ` set R" by simp
  from P(4) have rt: "routed lookup G" by (simp add: routed_def)
  from BuildQueryRpcs [OF sub, of t1] obtain crs where
    c: "push_back_each (BuildQueryRpc t1 R) G = Some crs"
    and c1: "map (\<lambda>c. pb_document_ids (fst c)) crs = map snd G"
    and c2: "map (\<lambda>c. pb_region_id (pb_query_context (fst c))) crs = map fst G"
    by (elim exE conjE)
  have "\<exists>d'. DocumentBatchQueryTask_DoAsync lookup d = Some d'
      \<and> map pb_document_ids (query_rpcs d') = map snd G
      \<and> map (\<lambda>rq. pb_region_id (pb_query_context rq)) (query_rpcs d') = map fst G
      \<and> query_calls d' = query_rpcs d'"
  proof (cases "?ids = []")
    case True
    with g have "G = []" by simp
    with True show ?thesis
      by (simp add: DocumentBatchQueryTask_DoAsync_def Let_def qc)
  next
    case False
    then have "DocumentBatchQueryTask_DoAsync lookup d =
        Some (t1\<lparr> query_controllers := crs, query_rpcs := map fst crs,
                   query_sub_tasks_count := int (length G),
                   query_calls := query_calls t1 @ map fst crs \<rparr>)"
      unfolding DocumentBatchQueryTask_DoAsync_def Let_def t1_def [symmetric]
      using g c by simp
    with c1 c2 show ?thesis by (simp add: comp_def t1_def qc)
  qed
  then obtain d' where d': "DocumentBatchQueryTask_DoAsync lookup d = Some d'"
      "map pb_document_ids (query_rpcs d') = map snd G"
      "map (\<lambda>rq. pb_region_id (pb_query_context rq)) (query_rpcs d') = map fst G"
      "query_calls d' = query_rpcs d'"
    by (elim exE conjE)
  show ?thesis
    apply (intro exI [of _ R] exI [of _ G] exI [of _ d'] conjI)
             apply (rule g)
            apply (rule ms)
           apply (rule I(3))
          apply (rule I(2))
         apply (rule dk)
        apply (rule rt)
       apply (rule d')+
    done
qed


lemma partition_of_groups:
  assumes "map f rpcs = map snd G" and "mset (concat (map snd G)) = mset ids"
    and "distinct ids"
  shows "(\<Union>rq \<in> set rpcs. set (f rq)) = set ids"
    and "\<forall>i j. i < j \<and> j < length rpcs \<longrightarrow> set (f (rpcs ! i)) \<inter> set (f (rpcs ! j)) = {}"
proof -
  from assms(1,2) have m: "mset (concat (map f rpcs)) = mset ids" by simp
  from partition_of_mset(1) [OF m assms(3)]
  show "(\<Union>rq \<in> set rpcs. set (f rq)) = set ids" by simp
  show "\<forall>i j. i < j \<and> j < length rpcs \<longrightarrow> set (f (rpcs ! i)) \<inter> set (f (rpcs ! j)) = {}"
  proof (intro allI impI)
    fix i j assume ij: "i < j \<and> j < length rpcs"
    with partition_of_mset(2) [OF m assms(3)]
    have "set (map f rpcs ! i) \<inter> set (map f rpcs ! j) = {}" by simp
    with ij show "set (f (rpcs ! i)) \<inter> set (f (rpcs ! j)) = {}" by simp
  qed
qed

lemma routed_rpcs:
  assumes "map f rpcs = map snd G" and "map g rpcs = map fst G" and "routed lookup G"
  shows "\<forall>rq \<in> set rpcs. \<forall>i \<in> set (f rq). \<exists>r. lookup i = Inr r \<and> RegionId r = g rq"
proof (intro ballI)
  fix rq i assume "rq \<in> set rpcs" and i: "i \<in> set (f rq)"
  then obtain k where k: "k < length rpcs" and rq: "rq = rpcs ! k"
    by (auto simp: in_set_conv_nth)
  from assms(1) have len: "length rpcs = length G" using map_eq_imp_length_eq by blast
  from assms(1) k len have f: "f rq = snd (G ! k)"
    unfolding rq by (metis nth_map)
  from assms(2) k len have g: "g rq = fst (G ! k)"
    unfolding rq by (metis nth_map)
  from k len have "G ! k \<in> set G" by simp
  with assms(3) i f have "\<exists>r. lookup i = Inr r \<and> RegionId r = fst (G ! k)"
    unfolding routed_def by auto
  with g show "\<exists>r. lookup i = Inr r \<and> RegionId r = g rq" by simp
qed

end
